theory Spec2Isabelle
  imports Main
begin

section \<open>Exceptions\<close>

text \<open>
  Every exception the modelled code can raise is a value.  The first three are the
  classes the module declares; the others come from the Redis client library and from
  the Python runtime.  \<open>ResponseError\<close> carries the server's message.
\<close>

datatype exn =
    CacheMissException
  | ExpiredKeyException
  | RedisNoConnException
  | ConnectionError
  | ResponseError string
  | AttributeError
  | KeyError
  | TypeError
  | ValueError

section \<open>The backing store\<close>

text \<open>
  The Redis server is not part of the repository; it is modelled by the commands the
  cache sends to it.  One keyspace maps a key to a string or to a set, each with an
  optional deadline.  A key whose deadline has passed is invisible to every command.
  Sets are kept as lists and read up to duplicates and order.  \<open>rand\<close> is the
  sequence of random numbers that \<open>SPOP\<close> consumes, so that every possible choice of the
  popped member is some state of the model.
\<close>

datatype rdata = RStr string | RSet "string list"

record redis =
  keyspace :: "string \<rightharpoonup> rdata \<times> nat option"
  now :: nat
  rand :: "nat list"

definition wrongtype :: exn where
  "wrongtype = ResponseError ''WRONGTYPE Operation against a key holding the wrong kind of value''"

definition invalid_expire :: exn where
  "invalid_expire = ResponseError ''ERR invalid expire time in setex''"

definition live :: "redis \<Rightarrow> string \<Rightarrow> (rdata \<times> nat option) option" where
  "live s k =
     (case keyspace s k of
        None \<Rightarrow> None
      | Some (d, None) \<Rightarrow> Some (d, None)
      | Some (d, Some t) \<Rightarrow> if t \<le> now s then None else Some (d, Some t))"

definition elapse :: "nat \<Rightarrow> redis \<Rightarrow> redis" where
  "elapse n s = s\<lparr>now := now s + n\<rparr>"

definition r_get :: "redis \<Rightarrow> string \<Rightarrow> exn + string option" where
  "r_get s k =
     (case live s k of
        None \<Rightarrow> Inr None
      | Some (RStr v, _) \<Rightarrow> Inr (Some v)
      | Some (RSet _, _) \<Rightarrow> Inl wrongtype)"

definition r_setex :: "redis \<Rightarrow> string \<Rightarrow> int \<Rightarrow> string \<Rightarrow> exn + redis" where
  "r_setex s k ttl v =
     (if ttl \<le> 0 then Inl invalid_expire
      else Inr (s\<lparr>keyspace := (keyspace s)(k \<mapsto> (RStr v, Some (now s + nat ttl)))\<rparr>))"

definition r_delete :: "redis \<Rightarrow> string \<Rightarrow> redis" where
  "r_delete s k = s\<lparr>keyspace := (keyspace s)(k := None)\<rparr>"

definition r_expire :: "redis \<Rightarrow> string \<Rightarrow> int \<Rightarrow> bool \<times> redis" where
  "r_expire s k ttl =
     (case live s k of
        None \<Rightarrow> (False, s)
      | Some (d, _) \<Rightarrow>
          if ttl \<le> 0 then (True, r_delete s k)
          else (True, s\<lparr>keyspace := (keyspace s)(k \<mapsto> (d, Some (now s + nat ttl)))\<rparr>))"

definition r_sadd :: "redis \<Rightarrow> string \<Rightarrow> string \<Rightarrow> exn + redis" where
  "r_sadd s name m =
     (case live s name of
        None \<Rightarrow> Inr (s\<lparr>keyspace := (keyspace s)(name \<mapsto> (RSet [m], None))\<rparr>)
      | Some (RSet xs, t) \<Rightarrow>
          Inr (s\<lparr>keyspace := (keyspace s)(name \<mapsto> (RSet (List.insert m xs), t))\<rparr>)
      | Some (RStr _, _) \<Rightarrow> Inl wrongtype)"

definition put_set :: "redis \<Rightarrow> string \<Rightarrow> string list \<Rightarrow> nat option \<Rightarrow> redis" where
  "put_set s name xs t =
     (if xs = [] then r_delete s name
      else s\<lparr>keyspace := (keyspace s)(name \<mapsto> (RSet xs, t))\<rparr>)"

definition r_srem :: "redis \<Rightarrow> string \<Rightarrow> string \<Rightarrow> exn + redis" where
  "r_srem s name m =
     (case live s name of
        None \<Rightarrow> Inr s
      | Some (RSet xs, t) \<Rightarrow> Inr (put_set s name (removeAll m xs) t)
      | Some (RStr _, _) \<Rightarrow> Inl wrongtype)"

definition r_smembers :: "redis \<Rightarrow> string \<Rightarrow> exn + string list" where
  "r_smembers s name =
     (case live s name of
        None \<Rightarrow> Inr []
      | Some (RSet xs, _) \<Rightarrow> Inr (remdups xs)
      | Some (RStr _, _) \<Rightarrow> Inl wrongtype)"

definition r_scard :: "redis \<Rightarrow> string \<Rightarrow> exn + nat" where
  "r_scard s name = map_sum id length (r_smembers s name)"

definition r_sismember :: "redis \<Rightarrow> string \<Rightarrow> string \<Rightarrow> exn + bool" where
  "r_sismember s name m = map_sum id (\<lambda>ms. m \<in> set ms) (r_smembers s name)"

definition next_rand :: "redis \<Rightarrow> nat" where
  "next_rand s = (case rand s of [] \<Rightarrow> 0 | r # _ \<Rightarrow> r)"

definition r_spop :: "redis \<Rightarrow> string \<Rightarrow> exn + string option \<times> redis" where
  "r_spop s name =
     (case live s name of
        None \<Rightarrow> Inr (None, s)
      | Some (RStr _, _) \<Rightarrow> Inl wrongtype
      | Some (RSet xs, t) \<Rightarrow>
          (case remdups xs of
             [] \<Rightarrow> Inr (None, s)
           | y # ys \<Rightarrow>
               let m = (y # ys) ! (next_rand s mod length (y # ys))
               in Inr (Some m, (put_set s name (removeAll m xs) t)\<lparr>rand := tl (rand s)\<rparr>)))"

text \<open>
  A pipeline queues commands and \<open>execute\<close> runs them in order inside one
  \<open>MULTI\<close>/\<open>EXEC\<close> block: a command that fails does not stop the ones after it, and
  \<open>execute\<close> raises the first error once all have run.
\<close>

datatype command = SETEX string int string | SADD string string | DELETE string

fun run_command :: "command \<Rightarrow> redis \<Rightarrow> exn option \<times> redis" where
  "run_command (SETEX k ttl v) s = (case r_setex s k ttl v of Inl e \<Rightarrow> (Some e, s) | Inr s' \<Rightarrow> (None, s'))"
| "run_command (SADD name m) s = (case r_sadd s name m of Inl e \<Rightarrow> (Some e, s) | Inr s' \<Rightarrow> (None, s'))"
| "run_command (DELETE k) s = (None, r_delete s k)"

fun execute :: "command list \<Rightarrow> redis \<Rightarrow> exn option \<times> redis" where
  "execute [] s = (None, s)"
| "execute (c # cs) s =
     (let (e, s1) = run_command c s; (es, s2) = execute cs s1
      in (case e of None \<Rightarrow> es | Some x \<Rightarrow> Some x, s2))"

section \<open>The cache object\<close>

text \<open>
  A namespace is a string or an integer (the hash of the caller's file name when none
  is given); \<open>py_format\<close> is what \<open>"{0}".format\<close> prints for it.
\<close>

datatype ident = IdStr string | IdInt int

definition digit_char :: "nat \<Rightarrow> char" where
  "digit_char d = ''0123456789'' ! d"

fun nat_digits :: "nat \<Rightarrow> string" where
  "nat_digits n = (if n < 10 then [digit_char n] else nat_digits (n div 10) @ [digit_char (n mod 10)])"

declare nat_digits.simps [simp del]

definition str_of_int :: "int \<Rightarrow> string" where
  "str_of_int i = (if i < 0 then CHR ''-'' # nat_digits (nat (- i)) else nat_digits (nat i))"

fun py_format :: "ident \<Rightarrow> string" where
  "py_format (IdStr s) = s"
| "py_format (IdInt i) = str_of_int i"

record StrictRedis =
  sr_host :: string
  sr_port :: int
  sr_db :: int

record SimpleCache =
  limit :: int
  expire :: int
  unique :: ident
  host :: "string option"
  port :: "int option"
  db :: "int option"
  connection :: "StrictRedis option"
  hashkeys :: bool
  set_name :: "string option"
  all_members :: "string list option"
  expired :: "nat option"

text \<open>
  Keys and values of the cache are text.  \<open>to_unicode\<close> decodes a byte string and
  leaves a unicode string alone; on text it changes no character.
\<close>

definition to_unicode :: "string \<Rightarrow> string" where
  "to_unicode obj = obj"

definition make_key :: "SimpleCache \<Rightarrow> string \<Rightarrow> string" where
  "make_key c key = py_format (unique c) @ '':'' @ key"

definition get_set_name :: "SimpleCache \<Rightarrow> string" where
  "get_set_name c = py_format (unique c) @ ''-keys''"

text \<open>\<open>__contains__\<close>, \<open>__len__\<close> and \<open>keys\<close>: one command each on the Key Set.\<close>

definition contains :: "SimpleCache \<Rightarrow> redis \<Rightarrow> string \<Rightarrow> exn + bool" where
  "contains c s key =
     (case connection c of
        None \<Rightarrow> Inl AttributeError
      | Some _ \<Rightarrow> r_sismember s (get_set_name c) key)"

definition len :: "SimpleCache \<Rightarrow> redis \<Rightarrow> exn + nat" where
  "len c s =
     (case connection c of
        None \<Rightarrow> Inl AttributeError
      | Some _ \<Rightarrow> r_scard s (get_set_name c))"

definition keys :: "SimpleCache \<Rightarrow> redis \<Rightarrow> exn + string list" where
  "keys c s =
     (case connection c of
        None \<Rightarrow> Inl AttributeError
      | Some _ \<Rightarrow> r_smembers s (get_set_name c))"

text \<open>
  \<open>get\<close>: the result \<open>Inr None\<close> is Python's \<open>None\<close>, returned when the key is falsy and
  the body of the \<open>if\<close> is skipped.
\<close>

definition get :: "SimpleCache \<Rightarrow> redis \<Rightarrow> string \<Rightarrow> (exn + string option) \<times> redis" where
  "get c s key0 =
     (let key = to_unicode key0 in
      if key \<noteq> [] then
        (case connection c of
           None \<Rightarrow> (Inl AttributeError, s)
         | Some _ \<Rightarrow>
            (case r_get s (make_key c key) of
               Inl e \<Rightarrow> (Inl e, s)
             | Inr (Some v) \<Rightarrow> (Inr (Some v), s)
             | Inr None \<Rightarrow>
                (case contains c s key of
                   Inl e \<Rightarrow> (Inl e, s)
                 | Inr False \<Rightarrow> (Inl CacheMissException, s)
                 | Inr True \<Rightarrow>
                    (case r_srem s (get_set_name c) key of
                       Inl e \<Rightarrow> (Inl e, s)
                     | Inr s' \<Rightarrow> (Inl ExpiredKeyException, s')))))
      else (Inr None, s))"

text \<open>
  \<open>store\<close>.  The eviction loop may run forever (a limit below 1 is never undercut by a
  cardinality), so it is a partial function: \<open>None\<close> is a call that does not return.
  \<open>SPOP\<close> on an empty set answers \<open>None\<close>, which \<open>make_key\<close> prints as \<open>None\<close>.
\<close>

definition format_opt :: "string option \<Rightarrow> string" where
  "format_opt k = (case k of None \<Rightarrow> ''None'' | Some x \<Rightarrow> x)"

partial_function (option) store_loop :: "SimpleCache \<Rightarrow> redis \<Rightarrow> ((exn + unit) \<times> redis) option" where
  "store_loop c s =
     (case r_scard s (get_set_name c) of
        Inl e \<Rightarrow> Some (Inl e, s)
      | Inr n \<Rightarrow>
          if int n \<ge> limit c then
            (case r_spop s (get_set_name c) of
               Inl e \<Rightarrow> Some (Inl e, s)
             | Inr (del_key, s1) \<Rightarrow> store_loop c (r_delete s1 (make_key c (format_opt del_key))))
          else Some (Inr (), s))"

declare store_loop.simps [code]

definition store :: "SimpleCache \<Rightarrow> redis \<Rightarrow> string \<Rightarrow> string \<Rightarrow> int option \<Rightarrow> ((exn + unit) \<times> redis) option" where
  "store c s key0 val0 expire0 =
     (let key = to_unicode key0; val = to_unicode val0; set_name = get_set_name c in
      case connection c of
        None \<Rightarrow> Some (Inl AttributeError, s)
      | Some _ \<Rightarrow>
         (case store_loop c s of
            None \<Rightarrow> None
          | Some (Inl e, s1) \<Rightarrow> Some (Inl e, s1)
          | Some (Inr _, s1) \<Rightarrow>
              let ex = (case expire0 of None \<Rightarrow> expire c | Some x \<Rightarrow> x);
                  (err, s2) = execute [SETEX (make_key c key) ex val, SADD set_name key] s1
              in Some (case err of None \<Rightarrow> Inr () | Some e \<Rightarrow> Inl e, s2)))"

text \<open>
  \<open>expire_all_in_set\<close> keeps its working values in attributes of the object, so the
  object is returned with them.
\<close>

fun expire_members :: "SimpleCache \<Rightarrow> string list \<Rightarrow> nat \<Rightarrow> redis \<Rightarrow> nat \<times> redis" where
  "expire_members c [] n s = (n, s)"
| "expire_members c (member # rest) n s =
     (let (res, s') = r_expire s (py_format (unique c) @ '':'' @ member) 0
      in expire_members c rest (if res then n + 1 else n) s')"

definition expire_all_in_set :: "SimpleCache \<Rightarrow> redis \<Rightarrow> (exn + nat \<times> nat) \<times> SimpleCache \<times> redis" where
  "expire_all_in_set c s =
     (let c1 = c\<lparr>set_name := Some (get_set_name c)\<rparr> in
      case keys c1 s of
        Inl e \<Rightarrow> (Inl e, c1, s)
      | Inr ms \<Rightarrow>
          let c2 = c1\<lparr>all_members := Some ms, expired := Some 0\<rparr>;
              (n, s') = expire_members c2 ms 0 s;
              c3 = c2\<lparr>expired := Some n\<rparr>
          in (case len c3 s' of
                Inl e \<Rightarrow> (Inl e, c3, s')
              | Inr tot \<Rightarrow> (Inr (tot, n), c3, s')))"


section \<open>Serialisation libraries\<close>

text \<open>
  \<open>json\<close>, \<open>pickle\<close>, \<open>base64\<close> and \<open>hashlib\<close> are libraries the module imports.  They
  are parameters of the model: a record holds the functions the module calls.  A
  \<open>dumps\<close> may raise on a value it cannot serialise and a \<open>loads\<close> on a text it cannot
  read.  Arguments have type \<open>'a\<close> and results type \<open>'r\<close>.
\<close>

record ('a, 'r) json_lib =
  json_dumps_args :: "'a \<Rightarrow> exn + string"
  json_dumps :: "'r \<Rightarrow> exn + string"
  json_loads :: "string \<Rightarrow> exn + 'r"
  json_md5 :: "string \<Rightarrow> string"

record ('a, 'r) pickle_lib =
  pickle_dumps_args :: "'a \<Rightarrow> exn + string"
  pickle_dumps :: "'r \<Rightarrow> exn + string"
  pickle_loads :: "string \<Rightarrow> exn + 'r"
  b64encode :: "string \<Rightarrow> string"
  b64decode :: "string \<Rightarrow> exn + string"
  pickle_md5 :: "string \<Rightarrow> string"

definition store_json :: "('a, 'r) json_lib \<Rightarrow> SimpleCache \<Rightarrow> redis \<Rightarrow> string \<Rightarrow> 'r \<Rightarrow> ((exn + unit) \<times> redis) option" where
  "store_json L c s key v =
     (case json_dumps L v of
        Inl e \<Rightarrow> Some (Inl e, s)
      | Inr t \<Rightarrow> store c s key t None)"

definition store_pickle :: "('a, 'r) pickle_lib \<Rightarrow> SimpleCache \<Rightarrow> redis \<Rightarrow> string \<Rightarrow> 'r \<Rightarrow> ((exn + unit) \<times> redis) option" where
  "store_pickle L c s key v =
     (case pickle_dumps L v of
        Inl e \<Rightarrow> Some (Inl e, s)
      | Inr t \<Rightarrow> store c s key (b64encode L t) None)"

definition get_json :: "('a, 'r) json_lib \<Rightarrow> SimpleCache \<Rightarrow> redis \<Rightarrow> string \<Rightarrow> (exn + 'r) \<times> redis" where
  "get_json L c s key =
     (case get c s key of
        (Inl e, s') \<Rightarrow> (Inl e, s')
      | (Inr None, s') \<Rightarrow> (Inl TypeError, s')
      | (Inr (Some t), s') \<Rightarrow> (json_loads L t, s'))"

definition pickle_read :: "('a, 'r) pickle_lib \<Rightarrow> string \<Rightarrow> exn + 'r" where
  "pickle_read L t = (case b64decode L t of Inl e \<Rightarrow> Inl e | Inr raw \<Rightarrow> pickle_loads L raw)"

definition get_pickle :: "('a, 'r) pickle_lib \<Rightarrow> SimpleCache \<Rightarrow> redis \<Rightarrow> string \<Rightarrow> (exn + 'r) \<times> redis" where
  "get_pickle L c s key =
     (case get c s key of
        (Inl e, s') \<Rightarrow> (Inl e, s')
      | (Inr None, s') \<Rightarrow> (Inl TypeError, s')
      | (Inr (Some t), s') \<Rightarrow> (pickle_read L t, s'))"

section \<open>Construction\<close>

text \<open>
  The constructor reads two things from outside: whether the server answers a ping,
  and the local variable \<open>__file__\<close> of the calling frame (absent when the caller is
  a function body).  \<open>py_hash\<close> is Python's \<open>hash\<close> on strings.
\<close>

record environment =
  ping :: "string \<Rightarrow> int \<Rightarrow> exn option"
  py_hash :: "string \<Rightarrow> int"

record RedisConnect =
  rc_host :: string
  rc_port :: int
  rc_db :: int

definition RedisConnect_init :: "string option \<Rightarrow> int option \<Rightarrow> int option \<Rightarrow> RedisConnect" where
  "RedisConnect_init h p d =
     \<lparr>rc_host = (case h of None \<Rightarrow> ''localhost'' | Some x \<Rightarrow> if x \<noteq> [] then x else ''localhost''),
      rc_port = (case p of None \<Rightarrow> 6379 | Some x \<Rightarrow> if x \<noteq> 0 then x else 6379),
      rc_db = (case d of None \<Rightarrow> 0 | Some x \<Rightarrow> if x \<noteq> 0 then x else 0)\<rparr>"

definition connect :: "environment \<Rightarrow> RedisConnect \<Rightarrow> exn + StrictRedis" where
  "connect env rc =
     (case ping env (rc_host rc) (rc_port rc) of
        Some ConnectionError \<Rightarrow> Inl RedisNoConnException
      | Some e \<Rightarrow> Inl e
      | None \<Rightarrow> Inr \<lparr>sr_host = rc_host rc, sr_port = rc_port rc, sr_db = rc_db rc\<rparr>)"

fun truthy :: "ident option \<Rightarrow> bool" where
  "truthy None = False"
| "truthy (Some (IdStr s)) = (s \<noteq> [])"
| "truthy (Some (IdInt i)) = (i \<noteq> 0)"

definition caller_namespace :: "environment \<Rightarrow> string option \<Rightarrow> ident option \<Rightarrow> exn + ident" where
  "caller_namespace env caller_file namespace =
     (if \<not> truthy namespace then
        (case caller_file of
           None \<Rightarrow> Inl KeyError
         | Some f \<Rightarrow> Inr (IdInt (py_hash env f)))
      else (case namespace of Some n \<Rightarrow> Inr n | None \<Rightarrow> Inl KeyError))"

definition init ::
  "environment \<Rightarrow> string option \<Rightarrow> int \<Rightarrow> int \<Rightarrow> bool \<Rightarrow> string option \<Rightarrow> int option \<Rightarrow> int option
     \<Rightarrow> ident option \<Rightarrow> exn + SimpleCache" where
  "init env caller_file lim ex hk h p d namespace =
     (case caller_namespace env caller_file namespace of
        Inl e \<Rightarrow> Inl e
      | Inr u \<Rightarrow>
         (case (case connect env (RedisConnect_init h p (Some 0)) of
                  Inl RedisNoConnException \<Rightarrow> Inr None
                | Inl e \<Rightarrow> Inl e
                | Inr r \<Rightarrow> Inr (Some r)) of
            Inl e \<Rightarrow> Inl e
          | Inr conn \<Rightarrow>
              Inr \<lparr>limit = lim, expire = ex, unique = u, host = h, port = p, db = d,
                   connection = conn, hashkeys = hk,
                   set_name = None, all_members = None, expired = None\<rparr>))"

section \<open>Memoisation wrappers\<close>

text \<open>
  A wrapped function has a name and a body; the body is pure.  The world a call runs
  in is the backing store, a counter of the calls made to wrapped bodies, and the
  messages given to \<open>logging.exception\<close>.
\<close>

record ('a, 'r) py_function =
  fn_name :: string
  fn_call :: "'a \<Rightarrow> 'r"

record world =
  backend :: redis
  calls :: nat
  logged :: "string list"

definition call_function :: "('a, 'r) py_function \<Rightarrow> 'a \<Rightarrow> world \<Rightarrow> 'r \<times> world" where
  "call_function f args w = (fn_call f args, w\<lparr>calls := calls w + 1\<rparr>)"

definition unknown_error :: string where
  "unknown_error = ''Unknown redis-simple-cache error. Please check your Redis free space.''"

text \<open>
  The decorator: the cache it closes over.  When none is passed it constructs one from
  inside the function \<open>decorator\<close>, whose frame has no local \<open>__file__\<close>.
\<close>

definition decorator :: "environment \<Rightarrow> int \<Rightarrow> int \<Rightarrow> SimpleCache option \<Rightarrow> exn + SimpleCache" where
  "decorator env lim ex cache =
     (case cache of
        None \<Rightarrow> init env None lim ex True None None None None
      | Some c \<Rightarrow> Inr c)"

text \<open>
  The cache key of a call: the serialised argument tuple, hashed when the cache says
  so, after the name of the function.
\<close>

definition pickle_cache_key ::
  "('a, 'r) pickle_lib \<Rightarrow> SimpleCache \<Rightarrow> ('a, 'r) py_function \<Rightarrow> 'a \<Rightarrow> exn + string" where
  "pickle_cache_key L cache f args =
     (case pickle_dumps_args L args of
        Inl e \<Rightarrow> Inl e
      | Inr d \<Rightarrow> Inr (fn_name f @ '':'' @ (if hashkeys cache then pickle_md5 L d else d)))"

definition json_cache_key ::
  "('a, 'r) json_lib \<Rightarrow> SimpleCache \<Rightarrow> ('a, 'r) py_function \<Rightarrow> 'a \<Rightarrow> exn + string" where
  "json_cache_key L cache f args =
     (case json_dumps_args L args of
        Inl e \<Rightarrow> Inl e
      | Inr d \<Rightarrow> Inr (fn_name f @ '':'' @ (if hashkeys cache then json_md5 L d else d)))"

text \<open>The last three lines of both wrappers: compute, store, return.\<close>

definition compute_and_store_pickle ::
  "('a, 'r) pickle_lib \<Rightarrow> SimpleCache \<Rightarrow> ('a, 'r) py_function \<Rightarrow> 'a \<Rightarrow> string \<Rightarrow> world
     \<Rightarrow> ((exn + 'r) \<times> world) option" where
  "compute_and_store_pickle L cache f args cache_key w =
     (let (result, w1) = call_function f args w in
      case store_pickle L cache (backend w1) cache_key result of
        None \<Rightarrow> None
      | Some (Inl e, s) \<Rightarrow> Some (Inl e, w1\<lparr>backend := s\<rparr>)
      | Some (Inr _, s) \<Rightarrow> Some (Inr result, w1\<lparr>backend := s\<rparr>))"

definition cache_it ::
  "('a, 'r) pickle_lib \<Rightarrow> SimpleCache \<Rightarrow> ('a, 'r) py_function \<Rightarrow> 'a \<Rightarrow> world
     \<Rightarrow> ((exn + 'r) \<times> world) option" where
  "cache_it L cache f args w =
     (if connection cache = None then
        (let (result, w1) = call_function f args w in Some (Inr result, w1))
      else
        (case pickle_cache_key L cache f args of
           Inl e \<Rightarrow> Some (Inl e, w)
         | Inr cache_key \<Rightarrow>
            (case get_pickle L cache (backend w) cache_key of
               (Inr v, s) \<Rightarrow> Some (Inr v, w\<lparr>backend := s\<rparr>)
             | (Inl e, s) \<Rightarrow>
                 if e = ExpiredKeyException \<or> e = CacheMissException then
                   compute_and_store_pickle L cache f args cache_key (w\<lparr>backend := s\<rparr>)
                 else
                   compute_and_store_pickle L cache f args cache_key
                     (w\<lparr>backend := s, logged := logged w @ [unknown_error]\<rparr>))))"

definition compute_and_store_json ::
  "('a, 'r) json_lib \<Rightarrow> SimpleCache \<Rightarrow> ('a, 'r) py_function \<Rightarrow> 'a \<Rightarrow> string \<Rightarrow> world
     \<Rightarrow> ((exn + 'r) \<times> world) option" where
  "compute_and_store_json L cache f args cache_key w =
     (let (result, w1) = call_function f args w in
      case store_json L cache (backend w1) cache_key result of
        None \<Rightarrow> None
      | Some (Inl e, s) \<Rightarrow> Some (Inl e, w1\<lparr>backend := s\<rparr>)
      | Some (Inr _, s) \<Rightarrow> Some (Inr result, w1\<lparr>backend := s\<rparr>))"

definition cache_it_json ::
  "('a, 'r) json_lib \<Rightarrow> SimpleCache \<Rightarrow> ('a, 'r) py_function \<Rightarrow> 'a \<Rightarrow> world
     \<Rightarrow> ((exn + 'r) \<times> world) option" where
  "cache_it_json L cache f args w =
     (if connection cache = None then
        (let (result, w1) = call_function f args w in Some (Inr result, w1))
      else
        (case json_cache_key L cache f args of
           Inl e \<Rightarrow> Some (Inl e, w)
         | Inr cache_key \<Rightarrow>
            (case contains cache (backend w) cache_key of
               Inl e \<Rightarrow> Some (Inl e, w)
             | Inr False \<Rightarrow> compute_and_store_json L cache f args cache_key w
             | Inr True \<Rightarrow>
                (case get_json L cache (backend w) cache_key of
                   (Inr v, s) \<Rightarrow> Some (Inr v, w\<lparr>backend := s\<rparr>)
                 | (Inl e, s) \<Rightarrow>
                     if e = ExpiredKeyException \<or> e = CacheMissException then
                       compute_and_store_json L cache f args cache_key (w\<lparr>backend := s\<rparr>)
                     else
                       compute_and_store_json L cache f args cache_key
                         (w\<lparr>backend := s, logged := logged w @ [unknown_error]\<rparr>)))))"

section \<open>A fragment of Python values and of the \<open>json\<close> library\<close>

text \<open>
  Concrete runs need concrete library functions.  The values are \<open>None\<close>, booleans,
  integers, lists and tuples; \<open>json_text\<close> is what \<open>json.dumps\<close> prints for them with its
  default separators (a tuple is printed as an array, like a list), and \<open>py_json_loads\<close>
  reads documents made of \<open>null\<close>, \<open>true\<close>, \<open>false\<close>, integers and arrays (an array comes
  back as a list).  Other documents are outside the fragment and are refused.
\<close>

datatype pyval = PNone | PBool bool | PInt int | PList "pyval list" | PTuple "pyval list"

fun join_comma :: "string list \<Rightarrow> string" where
  "join_comma [] = []"
| "join_comma [x] = x"
| "join_comma (x # y # zs) = x @ '', '' @ join_comma (y # zs)"

fun json_text :: "pyval \<Rightarrow> string" where
  "json_text PNone = ''null''"
| "json_text (PBool b) = (if b then ''true'' else ''false'')"
| "json_text (PInt i) = str_of_int i"
| "json_text (PList xs) = ''['' @ join_comma (map json_text xs) @ '']''"
| "json_text (PTuple xs) = ''['' @ join_comma (map json_text xs) @ '']''"

definition is_digit :: "char \<Rightarrow> bool" where
  "is_digit ch = ((48 :: nat) \<le> of_char ch \<and> of_char ch \<le> (57 :: nat))"

definition is_space :: "char \<Rightarrow> bool" where
  "is_space ch = (ch = CHR '' '' \<or> ch = CHR 0x0A \<or> ch = CHR 0x0D \<or> ch = CHR 0x09)"

definition digits_value :: "string \<Rightarrow> nat" where
  "digits_value ds = foldl (\<lambda>n ch. 10 * n + (of_char ch - 48)) (0 :: nat) ds"

definition json_number :: "string \<Rightarrow> (pyval \<times> string) option" where
  "json_number t =
     (let (neg, u) = (case t of ch # r \<Rightarrow> if ch = CHR ''-'' then (True, r) else (False, t) | [] \<Rightarrow> (False, t));
          ds = takeWhile is_digit u; rest = dropWhile is_digit u
      in if ds = [] \<or> (length ds > 1 \<and> hd ds = CHR ''0'') then None
         else if (case rest of ch # _ \<Rightarrow> ch = CHR ''.'' \<or> ch = CHR ''e'' \<or> ch = CHR ''E'' | [] \<Rightarrow> False) then None
         else Some (PInt (if neg then - int (digits_value ds) else int (digits_value ds)), rest))"

fun json_value :: "nat \<Rightarrow> string \<Rightarrow> (pyval \<times> string) option"
  and json_items :: "nat \<Rightarrow> string \<Rightarrow> pyval list \<Rightarrow> (pyval \<times> string) option" where
  "json_value 0 t = None"
| "json_value (Suc fuel) t =
     (let u = dropWhile is_space t in
      if take 4 u = ''null'' then Some (PNone, drop 4 u)
      else if take 4 u = ''true'' then Some (PBool True, drop 4 u)
      else if take 5 u = ''false'' then Some (PBool False, drop 5 u)
      else if take 1 u = ''['' then
        (let r = dropWhile is_space (drop 1 u) in
         if take 1 r = '']'' then Some (PList [], drop 1 r) else json_items fuel r [])
      else json_number u)"
| "json_items 0 t acc = None"
| "json_items (Suc fuel) t acc =
     (case json_value fuel t of
        None \<Rightarrow> None
      | Some (v, r) \<Rightarrow>
          (let r' = dropWhile is_space r in
           if take 1 r' = '','' then json_items fuel (drop 1 r') (acc @ [v])
           else if take 1 r' = '']'' then Some (PList (acc @ [v]), drop 1 r')
           else None))"

definition py_json_dumps :: "pyval \<Rightarrow> exn + string" where
  "py_json_dumps v = Inr (json_text v)"

definition py_json_loads :: "string \<Rightarrow> exn + pyval" where
  "py_json_loads t =
     (case json_value (Suc (length t)) t of
        None \<Rightarrow> Inl ValueError
      | Some (v, r) \<Rightarrow> if dropWhile is_space r = [] then Inr v else Inl ValueError)"

text \<open>The library record of the fragment.  No run below hashes a key.\<close>

definition py_json :: "(pyval, pyval) json_lib" where
  "py_json = \<lparr>json_dumps_args = py_json_dumps, json_dumps = py_json_dumps,
              json_loads = py_json_loads, json_md5 = undefined\<rparr>"

section \<open>Base64, and a stand-in for \<open>pickle\<close>\<close>

text \<open>
  The standard alphabet with padding, as \<open>base64.b64encode\<close> writes it; the decoder
  reads what the encoder writes and refuses anything else with \<open>TypeError\<close>.
\<close>

definition b64_alphabet :: string where
  "b64_alphabet = ''ABCDEFGHIJKLMNOPQRSTUVWXYZabcdefghijklmnopqrstuvwxyz0123456789+/''"

definition b64_char :: "nat \<Rightarrow> char" where
  "b64_char n = b64_alphabet ! n"

fun b64_groups :: "nat list \<Rightarrow> string" where
  "b64_groups [] = []"
| "b64_groups [a] = [b64_char (a div 4), b64_char ((a mod 4) * 16), CHR ''='', CHR ''='']"
| "b64_groups [a, b] =
     [b64_char (a div 4), b64_char ((a mod 4) * 16 + b div 16), b64_char ((b mod 16) * 4), CHR ''='']"
| "b64_groups (a # b # c # r) =
     [b64_char (a div 4), b64_char ((a mod 4) * 16 + b div 16),
      b64_char ((b mod 16) * 4 + c div 64), b64_char (c mod 64)] @ b64_groups r"

definition py_b64encode :: "string \<Rightarrow> string" where
  "py_b64encode s = b64_groups (map of_char s)"

definition b64_index :: "char \<Rightarrow> nat option" where
  "b64_index ch =
     (if ch \<in> set b64_alphabet then Some (length (takeWhile (\<lambda>x. x \<noteq> ch) b64_alphabet)) else None)"

fun b64_bytes :: "string \<Rightarrow> nat list option" where
  "b64_bytes [] = Some []"
| "b64_bytes (w # x # y # z # r) =
     (case (b64_index w, b64_index x) of
        (Some a, Some b) \<Rightarrow>
          if y = CHR ''='' \<and> z = CHR ''='' \<and> r = [] then Some [a * 4 + b div 16]
          else (case b64_index y of
                  None \<Rightarrow> None
                | Some c \<Rightarrow>
                    if z = CHR ''='' \<and> r = [] then Some [a * 4 + b div 16, (b mod 16) * 16 + c div 4]
                    else (case b64_index z of
                            None \<Rightarrow> None
                          | Some d \<Rightarrow>
                              map_option
                                (\<lambda>rest. [a * 4 + b div 16, (b mod 16) * 16 + c div 4, (c mod 4) * 64 + d] @ rest)
                                (b64_bytes r)))
      | _ \<Rightarrow> None)"
| "b64_bytes _ = None"

definition py_b64decode :: "string \<Rightarrow> exn + string" where
  "py_b64decode s = (case b64_bytes s of None \<Rightarrow> Inl TypeError | Some bs \<Rightarrow> Inr (map char_of bs))"

text \<open>
  The pickle format is not modelled.  To run \<open>store_pickle\<close>, \<open>get_pickle\<close> and
  \<open>cache_it\<close> on concrete values, this record puts the serialiser of the fragment in
  the place of \<open>pickle.dumps\<close> and \<open>pickle.loads\<close>, with the real Base64 around it.
\<close>

definition example_pickle :: "(pyval, pyval) pickle_lib" where
  "example_pickle = \<lparr>pickle_dumps_args = py_json_dumps, pickle_dumps = py_json_dumps,
                      pickle_loads = py_json_loads, b64encode = py_b64encode,
                      b64decode = py_b64decode, pickle_md5 = undefined\<rparr>"

section \<open>Example objects\<close>

definition example_client :: StrictRedis where
  "example_client = \<lparr>sr_host = ''localhost'', sr_port = 6379, sr_db = 0\<rparr>"

definition example_cache :: SimpleCache where
  "example_cache =
     \<lparr>limit = 2, expire = 60, unique = IdStr ''ns'', host = None, port = None, db = None,
      connection = Some example_client, hashkeys = False,
      set_name = None, all_members = None, expired = None\<rparr>"

definition empty_redis :: redis where
  "empty_redis = \<lparr>keyspace = Map.empty, now = 0, rand = []\<rparr>"

definition full_redis :: redis where
  "full_redis =
     \<lparr>keyspace = [''ns:a'' \<mapsto> (RStr ''1'', Some 60), ''ns:b'' \<mapsto> (RStr ''2'', Some 60),
                  ''ns-keys'' \<mapsto> (RSet [''a'', ''b''], None)],
      now = 0, rand = [1]\<rparr>"

definition stale_redis :: redis where
  "stale_redis =
     \<lparr>keyspace = [''ns:a'' \<mapsto> (RStr ''1'', Some 60), ''ns:b'' \<mapsto> (RStr ''2'', Some 5),
                  ''ns-keys'' \<mapsto> (RSet [''a'', ''b''], None)],
      now = 10, rand = []\<rparr>"

text \<open>Caches on the same server under other namespaces.\<close>

definition int_cache :: SimpleCache where
  "int_cache = example_cache\<lparr>unique := IdInt 1\<rparr>"

definition str_cache :: SimpleCache where
  "str_cache = example_cache\<lparr>unique := IdStr ''1''\<rparr>"

definition outer_cache :: SimpleCache where
  "outer_cache = example_cache\<lparr>unique := IdStr ''a''\<rparr>"

definition inner_cache :: SimpleCache where
  "inner_cache = example_cache\<lparr>unique := IdStr ''a:b''\<rparr>"

definition other_cache :: SimpleCache where
  "other_cache = example_cache\<lparr>unique := IdStr ''other''\<rparr>"

text \<open>
  An environment in which no server answers, a wrapped function that returns its first
  argument, a fresh world, and a store in which the Key-Set name of \<open>example_cache\<close>
  holds a string written by another client.
\<close>

definition unreachable :: environment where
  "unreachable = \<lparr>ping = (\<lambda>h p. Some ConnectionError), py_hash = (\<lambda>f. 0)\<rparr>"

definition first_arg :: "(pyval, pyval) py_function" where
  "first_arg = \<lparr>fn_name = ''first'', fn_call = (\<lambda>args. case args of PTuple (x # _) \<Rightarrow> x | _ \<Rightarrow> PNone)\<rparr>"

definition world0 :: world where
  "world0 = \<lparr>backend = empty_redis, calls = 0, logged = []\<rparr>"

definition clobbered_redis :: redis where
  "clobbered_redis = \<lparr>keyspace = [''ns-keys'' \<mapsto> (RStr ''x'', None)], now = 0, rand = []\<rparr>"

text \<open>
  Two argument tuples that differ (the one holds a tuple, the other a list), and the
  worlds left by a first wrapped call.
\<close>

definition tuple_args :: pyval where
  "tuple_args = PTuple [PTuple [PInt 1, PInt 2]]"

definition list_args :: pyval where
  "list_args = PTuple [PList [PInt 1, PInt 2]]"

definition json_world1 :: world where
  "json_world1 = snd (the (cache_it_json py_json example_cache first_arg tuple_args world0))"

definition pickle_world1 :: world where
  "pickle_world1 = snd (the (cache_it example_pickle example_cache first_arg list_args world0))"

definition json_world2 :: world where
  "json_world2 = snd (the (cache_it_json py_json example_cache first_arg list_args world0))"

text \<open>Scenarios: a call of \<open>store\<close> and what the next call sees.\<close>

definition after_store :: "SimpleCache \<Rightarrow> redis \<Rightarrow> string \<Rightarrow> string \<Rightarrow> redis" where
  "after_store c s k v = (case store c s k v None of Some (_, s') \<Rightarrow> s' | None \<Rightarrow> s)"

definition store_then_get :: "SimpleCache \<Rightarrow> redis \<Rightarrow> string \<Rightarrow> string \<Rightarrow> (exn + string option) option" where
  "store_then_get c s k v =
     (case store c s k v None of
        Some (Inr _, s') \<Rightarrow> Some (fst (get c s' k))
      | _ \<Rightarrow> None)"

definition store_then_get_json ::
  "('a, 'r) json_lib \<Rightarrow> SimpleCache \<Rightarrow> redis \<Rightarrow> string \<Rightarrow> 'r \<Rightarrow> (exn + 'r) option" where
  "store_then_get_json J c s k x =
     (case store_json J c s k x of
        Some (Inr _, s') \<Rightarrow> Some (fst (get_json J c s' k))
      | _ \<Rightarrow> None)"

section \<open>Properties\<close>

subsection \<open>Keys of a namespace\<close>

lemma make_key_not_set_name [simp]:
  "make_key c k \<noteq> get_set_name c" "get_set_name c \<noteq> make_key c k"
  by (auto simp: make_key_def get_set_name_def)

lemma make_key_inj [simp]: "make_key c k = make_key c k' \<longleftrightarrow> k = k'"
  by (simp add: make_key_def)

subsection \<open>What the commands do to a key\<close>

lemma live_delete [simp]: "live (r_delete s k) k' = (if k' = k then None else live s k')"
  by (auto simp: live_def r_delete_def split: option.splits)

lemma now_delete [simp]: "now (r_delete s k) = now s"
  by (simp add: r_delete_def)

lemma live_put_set_other [simp]: "k' \<noteq> name \<Longrightarrow> live (put_set s name xs t) k' = live s k'"
  by (auto simp: live_def put_set_def r_delete_def split: option.splits)

lemma live_put_set_same:
  "live s name = Some (d, t) \<Longrightarrow>
   live (put_set s name xs t) name = (if xs = [] then None else Some (RSet xs, t))"
  by (auto simp: live_def put_set_def r_delete_def split: option.splits if_splits)

lemma now_put_set [simp]: "now (put_set s name xs t) = now s"
  by (simp add: put_set_def r_delete_def)

lemma live_rand_upd [simp]: "live (s\<lparr>rand := r\<rparr>) k = live s k"
  by (auto simp: live_def split: option.splits)

lemma live_setex_other:
  "r_setex s k ttl v = Inr s' \<Longrightarrow> k \<noteq> name \<Longrightarrow> live s' name = live s name"
  by (auto simp: r_setex_def live_def split: if_splits option.splits)

lemma live_setex_same:
  "r_setex s k ttl v = Inr s' \<Longrightarrow> live s' k = Some (RStr v, Some (now s + nat ttl))"
  by (auto simp: r_setex_def live_def split: if_splits)

lemma now_setex: "r_setex s k ttl v = Inr s' \<Longrightarrow> now s' = now s"
  by (auto simp: r_setex_def split: if_splits)

lemma live_sadd_other:
  "r_sadd s name m = Inr s' \<Longrightarrow> k \<noteq> name \<Longrightarrow> live s' k = live s k"
  by (auto simp: r_sadd_def live_def split: option.splits rdata.splits if_splits)

lemma now_sadd: "r_sadd s name m = Inr s' \<Longrightarrow> now s' = now s"
  by (auto simp: r_sadd_def split: option.splits rdata.splits prod.splits)


lemma sismember_sadd:
  "r_sadd s name m = Inr s' \<Longrightarrow> r_sismember s' name k = Inr (k = m \<or> r_sismember s name k = Inr True)"
  by (auto simp: r_sadd_def r_sismember_def r_smembers_def live_def
           split: option.splits rdata.splits if_splits)

lemma scard_delete_other: "k \<noteq> name \<Longrightarrow> r_scard (r_delete s k) name = r_scard s name"
  by (simp add: r_scard_def r_smembers_def)

lemma length_remdups_removeAll:
  "m \<in> set xs \<Longrightarrow> length (remdups (removeAll m xs)) = length (remdups xs) - 1"
  by (simp add: length_remdups_card_conv)

lemma spop_nonempty:
  assumes "r_scard s name = Inr n" and "0 < n"
  shows "\<exists>m s1. r_spop s name = Inr (Some m, s1) \<and> r_scard s1 name = Inr (n - 1)"
proof -
  from assms obtain xs t where l: "live s name = Some (RSet xs, t)" and n: "n = length (remdups xs)"
    by (auto simp: r_scard_def r_smembers_def split: option.splits rdata.splits)
  from assms n obtain y ys where ne: "remdups xs = y # ys" by (cases "remdups xs") auto
  define m where "m = (y # ys) ! (next_rand s mod length (y # ys))"
  have "m \<in> set (y # ys)" unfolding m_def by (rule nth_mem) simp
  then have mem: "m \<in> set xs" using ne by (metis set_remdups)
  let ?s1 = "(put_set s name (removeAll m xs) t)\<lparr>rand := tl (rand s)\<rparr>"
  have pop: "r_spop s name = Inr (Some m, ?s1)"
    using l ne by (simp add: r_spop_def m_def Let_def)
  have "live ?s1 name = (if removeAll m xs = [] then None else Some (RSet (removeAll m xs), t))"
    using live_put_set_same[OF l] by simp
  then have "r_scard ?s1 name = Inr (length (remdups (removeAll m xs)))"
    by (simp add: r_scard_def r_smembers_def)
  then have "r_scard ?s1 name = Inr (n - 1)"
    using length_remdups_removeAll[OF mem] n by simp
  with pop show ?thesis by blast
qed

subsection \<open>The eviction loop\<close>

text \<open>
  A rule in the style of Hoare logic: a property of the store that every round of the
  loop keeps holds when the loop returns, and on a normal return the cardinality of the
  Key Set is below the limit.
\<close>

lemma store_loop_rule:
  assumes run: "store_loop c s = Some (r, s')"
    and init: "I s"
    and step: "\<And>s n dk s1. I s \<Longrightarrow> r_scard s (get_set_name c) = Inr n \<Longrightarrow> limit c \<le> int n \<Longrightarrow>
                 r_spop s (get_set_name c) = Inr (dk, s1) \<Longrightarrow>
                 I (r_delete s1 (make_key c (format_opt dk)))"
  shows "I s' \<and> (\<forall>u. r = Inr u \<longrightarrow> (\<exists>n. r_scard s' (get_set_name c) = Inr n \<and> int n < limit c))"
proof -
  let ?P = "\<lambda>c' s y. c' = c \<longrightarrow> I s \<longrightarrow>
     I (snd y) \<and> (\<forall>u. fst y = Inr u \<longrightarrow> (\<exists>n. r_scard (snd y) (get_set_name c) = Inr n \<and> int n < limit c))"
  have "?P c s (r, s')"
  proof (rule store_loop.raw_induct[where P = ?P, OF _ run])
    fix loop :: "SimpleCache \<Rightarrow> redis \<Rightarrow> ((exn + unit) \<times> redis) option"
      and c' :: SimpleCache and s :: redis and y :: "(exn + unit) \<times> redis"
    assume IH: "\<And>c' s y. loop c' s = Some y \<Longrightarrow> ?P c' s y"
    assume body: "(case r_scard s (get_set_name c') of Inl e \<Rightarrow> Some (Inl e, s)
      | Inr n \<Rightarrow>
          if limit c' \<le> int n
          then case r_spop s (get_set_name c') of Inl e \<Rightarrow> Some (Inl e, s)
               | Inr (del_key, s1) \<Rightarrow> loop c' (r_delete s1 (make_key c' (format_opt del_key)))
          else Some (Inr (), s)) = Some y"
    show "?P c' s y"
    proof (intro impI)
      assume c': "c' = c" and I: "I s"
      show "I (snd y) \<and> (\<forall>u. fst y = Inr u \<longrightarrow> (\<exists>n. r_scard (snd y) (get_set_name c) = Inr n \<and> int n < limit c))"
      proof (cases "r_scard s (get_set_name c)")
        case (Inl e)
        with body c' I show ?thesis by auto
      next
        case (Inr n)
        note card = this
        show ?thesis
        proof (cases "limit c \<le> int n")
          case False
          with card body c' I show ?thesis by auto
        next
          case True
          show ?thesis
          proof (cases "r_spop s (get_set_name c)")
            case (Inl e)
            with True card body c' I show ?thesis by auto
          next
            case (Inr p)
            with True card body c'
            have "loop c (r_delete (snd p) (make_key c (format_opt (fst p)))) = Some y"
              by (simp add: case_prod_beta)
            moreover have "I (r_delete (snd p) (make_key c (format_opt (fst p))))"
              using step[OF I card True] Inr by (cases p) simp
            ultimately show ?thesis using IH by blast
          qed
        qed
      qed
    qed
  qed
  with init show ?thesis by simp
qed


text \<open>With a limit of at least 1 every round removes a member, so the loop returns.\<close>

lemma store_loop_terminates:
  assumes "1 \<le> limit c"
  shows "\<exists>y. store_loop c s = Some y"
proof (induction "case r_scard s (get_set_name c) of Inl _ \<Rightarrow> 0 | Inr n \<Rightarrow> n" arbitrary: s rule: less_induct)
  case less
  show ?case
  proof (cases "r_scard s (get_set_name c)")
    case (Inl e)
    then show ?thesis by (subst store_loop.simps) simp
  next
    case (Inr n)
    show ?thesis
    proof (cases "limit c \<le> int n")
      case False
      with Inr show ?thesis by (subst store_loop.simps) simp
    next
      case True
      with assms have "0 < n" by simp
      from spop_nonempty[OF Inr this] obtain m s1 where
        pop: "r_spop s (get_set_name c) = Inr (Some m, s1)" and
        card: "r_scard s1 (get_set_name c) = Inr (n - 1)" by blast
      let ?s2 = "r_delete s1 (make_key c (format_opt (Some m)))"
      have "r_scard ?s2 (get_set_name c) = Inr (n - 1)"
        using card by (simp add: scard_delete_other)
      with Inr \<open>0 < n\<close> have "\<exists>y. store_loop c ?s2 = Some y"
        by (intro less) simp
      with Inr True pop show ?thesis by (subst store_loop.simps) simp
    qed
  qed
qed

subsection \<open>\<open>store\<close>\<close>

lemma store_normal:
  "store c s key val ex = Some (Inr (), s') \<longleftrightarrow>
     (\<exists>conn s1 s2. connection c = Some conn \<and> store_loop c s = Some (Inr (), s1) \<and>
        r_setex s1 (make_key c key) (case ex of None \<Rightarrow> expire c | Some x \<Rightarrow> x) val = Inr s2 \<and>
        r_sadd s2 (get_set_name c) key = Inr s')"
  by (auto simp: store_def Let_def to_unicode_def split: option.splits sum.splits prod.splits)

lemma store_terminates:
  assumes "1 \<le> limit c"
  shows "\<exists>y. store c s key val ex = Some y"
proof -
  from store_loop_terminates[OF assms] obtain y where "store_loop c s = Some y" by blast
  then show ?thesis
    by (cases y) (auto simp: store_def Let_def split: option.splits sum.splits prod.splits)
qed

lemmas eval_defs =
  store_def store_loop.simps get_def contains_def len_def keys_def
  r_get_def r_scard_def r_sismember_def r_smembers_def r_spop_def r_sadd_def r_srem_def
  r_setex_def r_delete_def r_expire_def put_set_def next_rand_def live_def
  get_set_name_def make_key_def to_unicode_def format_opt_def Let_def
  example_cache_def example_client_def empty_redis_def full_redis_def stale_redis_def

lemmas json_eval =
  py_json_def py_json_dumps_def py_json_loads_def json_number_def is_digit_def is_space_def
  digits_value_def str_of_int_def nat_digits.simps digit_char_def



subsection \<open>\<open>get\<close>\<close>


lemma get_live:
  assumes "key \<noteq> []" and "connection c \<noteq> None"
  shows "get c s key =
     (case r_get s (make_key c key) of
        Inl e \<Rightarrow> (Inl e, s)
      | Inr (Some v) \<Rightarrow> (Inr (Some v), s)
      | Inr None \<Rightarrow>
         (case contains c s key of
            Inl e \<Rightarrow> (Inl e, s)
          | Inr False \<Rightarrow> (Inl CacheMissException, s)
          | Inr True \<Rightarrow>
             (case r_srem s (get_set_name c) key of
                Inl e \<Rightarrow> (Inl e, s)
              | Inr s' \<Rightarrow> (Inl ExpiredKeyException, s'))))"
  using assms by (auto simp: get_def to_unicode_def split: option.splits)

lemma srem_listed:
  assumes "r_sismember s name key = Inr True"
  shows "\<exists>s'. r_srem s name key = Inr s' \<and> r_sismember s' name key = Inr False \<and>
           (\<forall>k. k \<noteq> name \<longrightarrow> live s' k = live s k)"
proof -
  from assms obtain xs t where l: "live s name = Some (RSet xs, t)"
    by (auto simp: r_sismember_def r_smembers_def split: option.splits rdata.splits)
  have "live (put_set s name (removeAll key xs) t) name =
          (if removeAll key xs = [] then None else Some (RSet (removeAll key xs), t))"
    by (rule live_put_set_same[OF l])
  then have "r_sismember (put_set s name (removeAll key xs) t) name key = Inr False"
    by (simp add: r_sismember_def r_smembers_def)
  with l show ?thesis by (simp add: r_srem_def)
qed






subsection \<open>Round trips\<close>

lemma store_then_get_entry:
  assumes "store c s key v ex = Some (Inr (), s')"
  shows "r_get s' (make_key c key) = Inr (Some v) \<and> connection c \<noteq> None \<and> contains c s' key = Inr True"
proof -
  from assms obtain conn s1 s2 where conn: "connection c = Some conn"
    and a: "r_setex s1 (make_key c key) (case ex of None \<Rightarrow> expire c | Some x \<Rightarrow> x) v = Inr s2"
    and b: "r_sadd s2 (get_set_name c) key = Inr s'"
    unfolding store_normal by blast
  have "live s' (make_key c key) = live s2 (make_key c key)"
    by (rule live_sadd_other[OF b]) simp
  also have "\<dots> = Some (RStr v, Some (now s1 + nat (case ex of None \<Rightarrow> expire c | Some x \<Rightarrow> x)))"
    by (rule live_setex_same[OF a])
  finally have "r_get s' (make_key c key) = Inr (Some v)" by (simp add: r_get_def)
  moreover have "contains c s' key = Inr True"
    using sismember_sadd[OF b, of key] conn by (simp add: contains_def)
  ultimately show ?thesis using conn by simp
qed

lemma store_then_get_raw:
  assumes "store c s key v ex = Some (Inr (), s')" and "key \<noteq> []"
  shows "get c s' key = (Inr (Some v), s')"
  using store_then_get_entry[OF assms(1)] assms(2) by (simp add: get_live)

text \<open>
  C2, for a key that is not empty.  After a call of \<open>store\<close> that returned normally,
  \<open>get\<close> on the same key returns the stored text.  After \<open>store_json\<close>, \<open>get_json\<close>
  returns what \<open>json.loads\<close> reads from the text \<open>json.dumps\<close> wrote; after
  \<open>store_pickle\<close>, \<open>get_pickle\<close> returns what \<open>pickle.loads\<close> reads from the Base64
  decoding of the Base64 encoding of what \<open>pickle.dumps\<close> wrote (\<open>pickle_read\<close>).  The cache adds no
  loss of its own: the value comes back unchanged exactly when the library reads back
  what it wrote.
\<close>

theorem store_get_roundtrip:
  assumes "key \<noteq> []"
  shows "(store c s key v ex = Some (Inr (), s1) \<longrightarrow> get c s1 key = (Inr (Some v), s1)) \<and>
         (store_json J c s key x = Some (Inr (), s2) \<longrightarrow>
            (\<exists>t. json_dumps J x = Inr t \<and> get_json J c s2 key = (json_loads J t, s2))) \<and>
         (store_pickle P c s key y = Some (Inr (), s3) \<longrightarrow>
            (\<exists>t. pickle_dumps P y = Inr t \<and>
                 get_pickle P c s3 key = (pickle_read P (b64encode P t), s3)))"
proof (intro conjI impI)
  assume "store c s key v ex = Some (Inr (), s1)"
  then show "get c s1 key = (Inr (Some v), s1)" using assms by (rule store_then_get_raw)
next
  assume run: "store_json J c s key x = Some (Inr (), s2)"
  then obtain t where t: "json_dumps J x = Inr t" and st: "store c s key t None = Some (Inr (), s2)"
    by (auto simp: store_json_def split: sum.splits)
  from store_then_get_raw[OF st assms] t
  show "\<exists>t. json_dumps J x = Inr t \<and> get_json J c s2 key = (json_loads J t, s2)"
    by (simp add: get_json_def)
next
  assume run: "store_pickle P c s key y = Some (Inr (), s3)"
  then obtain t where t: "pickle_dumps P y = Inr t"
    and st: "store c s key (b64encode P t) None = Some (Inr (), s3)"
    by (auto simp: store_pickle_def split: sum.splits)
  from store_then_get_raw[OF st assms] t
  show "\<exists>t. pickle_dumps P y = Inr t \<and>
          get_pickle P c s3 key = (pickle_read P (b64encode P t), s3)"
    by (simp add: get_pickle_def)
qed

theorem store_get_roundtrip_witness:
  "(\<exists>s1. store example_cache empty_redis ''k'' ''3'' None = Some (Inr (), s1) \<and>
         get example_cache s1 ''k'' = (Inr (Some ''3''), s1)) \<and>
   (\<exists>s2. store_json py_json example_cache empty_redis ''k'' (PList [PInt 1, PInt 2]) = Some (Inr (), s2) \<and>
         get_json py_json example_cache s2 ''k'' = (Inr (PList [PInt 1, PInt 2]), s2)) \<and>
   (\<exists>s3. store_pickle example_pickle example_cache empty_redis ''k'' (PList [PInt 1, PInt 2]) = Some (Inr (), s3) \<and>
         get_pickle example_pickle example_cache s3 ''k'' = (Inr (PList [PInt 1, PInt 2]), s3))"
proof -
  have dumps: "py_json_dumps (PList [PInt 1, PInt 2]) = Inr ''[1, 2]''"
    by (simp add: json_eval)
  have loads: "py_json_loads ''[1, 2]'' = Inr (PList [PInt 1, PInt 2])"
    by (simp add: json_eval Let_def)
  have b64: "py_b64decode (py_b64encode ''[1, 2]'') = Inr ''[1, 2]''"
    by code_simp
  have "\<exists>s1. store example_cache empty_redis ''k'' ''3'' None = Some (Inr (), s1)"
    by (simp add: eval_defs)
  then obtain s1 where r1: "store example_cache empty_redis ''k'' ''3'' None = Some (Inr (), s1)" ..
  have "\<exists>s2. store_json py_json example_cache empty_redis ''k'' (PList [PInt 1, PInt 2]) = Some (Inr (), s2)"
    by (simp add: store_json_def py_json_def dumps eval_defs)
  then obtain s2 where
    r2: "store_json py_json example_cache empty_redis ''k'' (PList [PInt 1, PInt 2]) = Some (Inr (), s2)" ..
  have "\<exists>s3. store_pickle example_pickle example_cache empty_redis ''k'' (PList [PInt 1, PInt 2]) = Some (Inr (), s3)"
    by (simp add: store_pickle_def example_pickle_def dumps eval_defs)
  then obtain s3 where
    r3: "store_pickle example_pickle example_cache empty_redis ''k'' (PList [PInt 1, PInt 2]) = Some (Inr (), s3)" ..
  have k: "''k'' \<noteq> []" by simp
  from store_get_roundtrip[OF k, of example_cache empty_redis "''3''" None s1
      py_json "PList [PInt 1, PInt 2]" s2 example_pickle "PList [PInt 1, PInt 2]" s3] r1 r2 r3
  show ?thesis
    by (simp add: py_json_def example_pickle_def pickle_read_def dumps loads b64)
qed

theorem store_get_roundtrip_counterexample:
  "store_then_get example_cache empty_redis [] ''v'' = Some (Inr None) \<and>
   store_then_get_json py_json example_cache empty_redis ''k'' (PTuple [PInt 1, PInt 2])
     = Some (Inr (PList [PInt 1, PInt 2]))"
  by (simp add: store_then_get_def store_then_get_json_def store_json_def get_json_def eval_defs json_eval)

subsection \<open>\<open>flush\<close>\<close>







subsection \<open>\<open>expire_all_in_set\<close>\<close>

lemma live_expire_zero:
  "r_expire s k 0 = (res, s') \<Longrightarrow>
     res = (live s k \<noteq> None) \<and> (\<forall>x. live s' x = (if x = k then None else live s x))"
  by (auto simp: r_expire_def split: option.splits prod.splits)

lemma expire_members_spec:
  assumes "distinct ms"
  shows "\<exists>s'. expire_members c ms n s =
            (n + length (filter (\<lambda>m. live s (make_key c m) \<noteq> None) ms), s') \<and>
          (\<forall>x. live s' x = (if x \<in> make_key c ` set ms then None else live s x))"
  using assms
proof (induction ms arbitrary: n s)
  case Nil
  then show ?case by simp
next
  case (Cons m ms)
  obtain res s1 where e: "r_expire s (make_key c m) 0 = (res, s1)" by (cases "r_expire s (make_key c m) 0")
  from live_expire_zero[OF e] have res: "res = (live s (make_key c m) \<noteq> None)"
    and l1: "\<And>x. live s1 x = (if x = make_key c m then None else live s x)" by auto
  from Cons.prems have d: "distinct ms" and nm: "m \<notin> set ms" by auto
  from Cons.IH[OF d, of "if res then n + 1 else n" s1] obtain s' where
    run: "expire_members c ms (if res then n + 1 else n) s1 =
            ((if res then n + 1 else n) + length (filter (\<lambda>m. live s1 (make_key c m) \<noteq> None) ms), s')"
    and l': "\<And>x. live s' x = (if x \<in> make_key c ` set ms then None else live s1 x)" by blast
  have same: "filter (\<lambda>m. live s1 (make_key c m) \<noteq> None) ms = filter (\<lambda>m. live s (make_key c m) \<noteq> None) ms"
    using nm by (intro filter_cong) (auto simp: l1)
  have "expire_members c (m # ms) n s =
          (n + length (filter (\<lambda>m. live s (make_key c m) \<noteq> None) (m # ms)), s')"
    using e run same res by (simp add: make_key_def)
  moreover have "\<forall>x. live s' x = (if x \<in> make_key c ` set (m # ms) then None else live s x)"
    by (auto simp: l' l1)
  ultimately show ?case by blast
qed

text \<open>
  C9.  \<open>expire_all_in_set\<close> sends \<open>EXPIRE key 0\<close> for every member of the Key Set.  It
  returns the number of members of the Key Set and the number of them whose entry was
  still there to expire; afterwards no member has an entry, and the Key Set is as it
  was.
\<close>

theorem expire_all_in_set_counts:
  assumes "keys c s = Inr ms"
  shows "\<exists>c' s'. expire_all_in_set c s =
            (Inr (length ms, length (filter (\<lambda>m. live s (make_key c m) \<noteq> None) ms)), c', s') \<and>
          (\<forall>m \<in> set ms. live s' (make_key c m) = None) \<and>
          keys c s' = Inr ms"
proof -
  from assms obtain conn where conn: "connection c = Some conn"
    by (auto simp: keys_def split: option.splits)
  from assms conn have sm: "r_smembers s (get_set_name c) = Inr ms" by (simp add: keys_def)
  then have d: "distinct ms" by (auto simp: r_smembers_def split: option.splits rdata.splits)
  let ?c2 = "c\<lparr>set_name := Some (get_set_name c), all_members := Some ms, expired := Some 0\<rparr>"
  from expire_members_spec[OF d, of ?c2 0 s] obtain s' where
    run: "expire_members ?c2 ms 0 s = (length (filter (\<lambda>m. live s (make_key c m) \<noteq> None) ms), s')"
    and l': "\<And>x. live s' x = (if x \<in> make_key c ` set ms then None else live s x)"
    by (auto simp: make_key_def)
  have nm: "live s' (get_set_name c) = live s (get_set_name c)" by (auto simp: l')
  then have sm': "r_smembers s' (get_set_name c) = Inr ms" using sm by (simp add: r_smembers_def)
  have "expire_all_in_set c s =
          (Inr (length ms, length (filter (\<lambda>m. live s (make_key c m) \<noteq> None) ms)),
           ?c2\<lparr>expired := Some (length (filter (\<lambda>m. live s (make_key c m) \<noteq> None) ms))\<rparr>, s')"
    using conn sm sm' run
    by (simp add: expire_all_in_set_def keys_def len_def r_scard_def get_set_name_def Let_def)
  moreover have "\<forall>m \<in> set ms. live s' (make_key c m) = None" by (simp add: l')
  moreover have "keys c s' = Inr ms" using conn sm' by (simp add: keys_def)
  ultimately show ?thesis by blast
qed

theorem expire_all_in_set_counts_witness:
  "\<exists>c' s'. expire_all_in_set example_cache stale_redis = (Inr (2, 1), c', s') \<and>
      (\<forall>m \<in> set [''a'', ''b'']. live s' (make_key example_cache m) = None) \<and>
      keys example_cache s' = Inr [''a'', ''b'']"
proof -
  have k: "keys example_cache stale_redis = Inr [''a'', ''b'']" by (simp add: eval_defs)
  have n: "length (filter (\<lambda>m. live stale_redis (make_key example_cache m) \<noteq> None) [''a'', ''b'']) = 1"
    by (simp add: eval_defs)
  from expire_all_in_set_counts[OF k, unfolded n] show ?thesis by (simp add: numeral_2_eq_2)
qed


subsection \<open>What \<open>store\<close> touches\<close>

lemma spop_frame:
  assumes "r_spop s name = Inr (dk, s1)"
  shows "now s1 = now s \<and> (\<forall>x. x \<noteq> name \<longrightarrow> live s1 x = live s x) \<and>
         (live s1 name = live s name \<or> live s1 name = None \<or> (\<exists>xs t. live s1 name = Some (RSet xs, t)))"
proof (cases "live s name")
  case None
  with assms show ?thesis by (simp add: r_spop_def)
next
  case (Some p)
  obtain d t where p: "p = (d, t)" by (cases p)
  show ?thesis
  proof (cases d)
    case (RStr v)
    with Some p assms show ?thesis by (simp add: r_spop_def)
  next
    case (RSet xs)
    show ?thesis
    proof (cases "remdups xs")
      case Nil
      with Some p RSet assms show ?thesis by (simp add: r_spop_def)
    next
      case (Cons y ys)
      define m where "m = (y # ys) ! (next_rand s mod length (y # ys))"
      from Some p RSet Cons assms have s1: "s1 = (put_set s name (removeAll m xs) t)\<lparr>rand := tl (rand s)\<rparr>"
        by (simp add: r_spop_def m_def Let_def)
      have l: "live s name = Some (RSet xs, t)" using Some p RSet by simp
      have "live s1 name = (if removeAll m xs = [] then None else Some (RSet (removeAll m xs), t))"
        unfolding s1 using live_put_set_same[OF l] by simp
      then show ?thesis unfolding s1 by auto
    qed
  qed
qed

lemma store_loop_frame:
  assumes "store_loop c s = Some (r, s')"
  shows "now s' = now s \<and>
         (\<forall>x. live s' x = live s x \<or> live s' x = None \<or>
              (x = get_set_name c \<and> (\<exists>xs t. live s' x = Some (RSet xs, t))))"
proof -
  let ?I = "\<lambda>s1. now s1 = now s \<and>
         (\<forall>x. live s1 x = live s x \<or> live s1 x = None \<or>
              (x = get_set_name c \<and> (\<exists>xs t. live s1 x = Some (RSet xs, t))))"
  have "?I s' \<and> (\<forall>u. r = Inr u \<longrightarrow> (\<exists>n. r_scard s' (get_set_name c) = Inr n \<and> int n < limit c))"
  proof (rule store_loop_rule[OF assms, of ?I])
    show "?I s" by simp
  next
    fix s0 n dk s1
    assume I: "?I s0" and pop: "r_spop s0 (get_set_name c) = Inr (dk, s1)"
    from spop_frame[OF pop] have
      n1: "now s1 = now s0" and
      o1: "\<And>x. x \<noteq> get_set_name c \<Longrightarrow> live s1 x = live s0 x" and
      s1: "live s1 (get_set_name c) = live s0 (get_set_name c) \<or> live s1 (get_set_name c) = None \<or>
           (\<exists>xs t. live s1 (get_set_name c) = Some (RSet xs, t))"
      by auto
    let ?s2 = "r_delete s1 (make_key c (format_opt dk))"
    have "now ?s2 = now s" using n1 I by simp
    moreover have "live ?s2 x = live s x \<or> live ?s2 x = None \<or>
              (x = get_set_name c \<and> (\<exists>xs t. live ?s2 x = Some (RSet xs, t)))" for x
    proof (cases "x = get_set_name c")
      case True
      with s1 I show ?thesis by auto
    next
      case False
      with o1[OF False] I show ?thesis by auto
    qed
    ultimately show "?I ?s2" by blast
  qed
  then show ?thesis by blast
qed

lemma store_frame:
  assumes "store c s key v ex = Some (r, s')"
  shows "now s' = now s \<and>
         (\<forall>x. live s' x = live s x \<or> live s' x = None \<or>
              (x = get_set_name c \<and> (\<exists>xs t. live s' x = Some (RSet xs, t))) \<or>
              (x = make_key c key \<and> (\<exists>t. live s' x = Some (RStr v, t))))"
proof (cases "connection c")
  case None
  with assms show ?thesis by (simp add: store_def)
next
  case (Some conn)
  with assms obtain r1 s1 where loop: "store_loop c s = Some (r1, s1)"
    by (auto simp: store_def Let_def split: option.splits)
  note f1 = store_loop_frame[OF loop]
  show ?thesis
  proof (cases r1)
    case (Inl e)
    with assms Some loop have "s' = s1" by (simp add: store_def Let_def)
    with f1 show ?thesis by auto
  next
    case (Inr u)
    define ttl where "ttl = (case ex of None \<Rightarrow> expire c | Some x \<Rightarrow> x)"
    define s2 where "s2 = (case r_setex s1 (make_key c key) ttl v of Inl e \<Rightarrow> s1 | Inr z \<Rightarrow> z)"
    define s3 where "s3 = (case r_sadd s2 (get_set_name c) key of Inl e \<Rightarrow> s2 | Inr z \<Rightarrow> z)"
    from assms Some loop Inr have s': "s' = s3"
      by (auto simp: store_def Let_def to_unicode_def s3_def s2_def ttl_def split: sum.splits prod.splits)
    have n2: "now s2 = now s1"
      by (auto simp: s2_def dest: now_setex split: sum.splits)
    have l2: "live s2 x = live s1 x \<or> (x = make_key c key \<and> (\<exists>t. live s2 x = Some (RStr v, t)))" for x
    proof (cases "r_setex s1 (make_key c key) ttl v")
      case (Inl e)
      then show ?thesis by (simp add: s2_def)
    next
      case (Inr z)
      then have z: "s2 = z" by (simp add: s2_def)
      show ?thesis
      proof (cases "x = make_key c key")
        case True
        with live_setex_same[OF Inr] z show ?thesis by simp
      next
        case False
        then have "make_key c key \<noteq> x" by simp
        from live_setex_other[OF Inr this] z show ?thesis by simp
      qed
    qed
    have n3: "now s3 = now s2"
      by (auto simp: s3_def dest: now_sadd split: sum.splits)
    have l3: "live s3 x = live s2 x \<or> (x = get_set_name c \<and> (\<exists>xs t. live s3 x = Some (RSet xs, t)))" for x
    proof (cases "r_sadd s2 (get_set_name c) key")
      case (Inl e)
      then show ?thesis by (simp add: s3_def)
    next
      case (Inr z)
      then have z: "s3 = z" by (simp add: s3_def)
      show ?thesis
      proof (cases "x = get_set_name c")
        case False
        with live_sadd_other[OF Inr, of x] z show ?thesis by simp
      next
        case True
        from Inr have "\<exists>xs t. live z (get_set_name c) = Some (RSet xs, t)"
          by (auto simp: r_sadd_def live_def split: option.splits rdata.splits if_splits)
        with True z show ?thesis by simp
      qed
    qed
    have "live s' x = live s x \<or> live s' x = None \<or>
              (x = get_set_name c \<and> (\<exists>xs t. live s' x = Some (RSet xs, t))) \<or>
              (x = make_key c key \<and> (\<exists>t. live s' x = Some (RStr v, t)))" for x
    proof -
      from f1 have a: "live s1 x = live s x \<or> live s1 x = None \<or>
              (x = get_set_name c \<and> (\<exists>xs t. live s1 x = Some (RSet xs, t)))" by blast
      show ?thesis using a l2[of x] l3[of x] unfolding s' by (elim disjE conjE) auto
    qed
    moreover have "now s' = now s" using f1 n2 n3 s' by simp
    ultimately show ?thesis by blast
  qed
qed

lemma get_returns_value:
  "fst (get c s key) = Inr (Some w) \<longleftrightarrow>
     key \<noteq> [] \<and> connection c \<noteq> None \<and> (\<exists>t. live s (make_key c key) = Some (RStr w, t))"
  by (auto simp: get_def to_unicode_def r_get_def contains_def r_srem_def
           split: option.splits sum.splits rdata.splits bool.splits prod.splits)

lemma contains_true:
  "contains c s key = Inr True \<longleftrightarrow>
     connection c \<noteq> None \<and> (\<exists>xs t. live s (get_set_name c) = Some (RSet xs, t) \<and> key \<in> set xs)"
  by (auto simp: contains_def r_sismember_def r_smembers_def
           split: option.splits rdata.splits)

lemma make_key_other_namespace:
  "py_format (unique c1) \<noteq> py_format (unique c2) \<Longrightarrow> make_key c1 key \<noteq> make_key c2 key"
  by (simp add: make_key_def)

lemma set_name_other_namespace:
  "py_format (unique c1) \<noteq> py_format (unique c2) \<Longrightarrow> get_set_name c1 \<noteq> get_set_name c2"
  by (simp add: get_set_name_def)

text \<open>
  C6, for namespaces that \<open>format\<close> prints differently.  A call of \<open>store\<close> for a key
  through one cache makes nothing visible through the other: if \<open>get\<close> for that key
  through the second cache did not return a value before the call it does not return it
  after, and if the membership test was not true before it is not true after.
\<close>

theorem namespace_isolation:
  assumes "py_format (unique c1) \<noteq> py_format (unique c2)"
    and "store c1 s key v ex = Some (r, s')"
  shows "(fst (get c2 s key) \<noteq> Inr (Some w) \<longrightarrow> fst (get c2 s' key) \<noteq> Inr (Some w)) \<and>
         (contains c2 s key \<noteq> Inr True \<longrightarrow> contains c2 s' key \<noteq> Inr True)"
proof -
  note fr = store_frame[OF assms(2)]
  have k: "make_key c2 key \<noteq> make_key c1 key"
    using make_key_other_namespace[OF assms(1)] by metis
  have n: "get_set_name c2 \<noteq> get_set_name c1"
    using set_name_other_namespace[OF assms(1)] by metis
  have "fst (get c2 s key) = Inr (Some w)" if vis: "fst (get c2 s' key) = Inr (Some w)"
  proof -
    from vis obtain t where ne: "key \<noteq> []" and conn: "connection c2 \<noteq> None"
      and l: "live s' (make_key c2 key) = Some (RStr w, t)"
      unfolding get_returns_value by blast
    from fr k l have "live s (make_key c2 key) = Some (RStr w, t)" by (metis option.distinct(1) rdata.distinct(1) prod.inject option.inject)
    with ne conn show ?thesis unfolding get_returns_value by blast
  qed
  moreover have "contains c2 s key = Inr True" if vis: "contains c2 s' key = Inr True"
  proof -
    from vis obtain xs t where conn: "connection c2 \<noteq> None"
      and l: "live s' (get_set_name c2) = Some (RSet xs, t)" and m: "key \<in> set xs"
      unfolding contains_true by blast
    from fr n l have "live s (get_set_name c2) = Some (RSet xs, t)"
      by (metis option.distinct(1) rdata.distinct(1) prod.inject option.inject)
    with conn m show ?thesis unfolding contains_true by blast
  qed
  ultimately show ?thesis by blast
qed

theorem namespace_isolation_witness:
  "\<exists>s'. store example_cache full_redis ''c'' ''3'' None = Some (Inr (), s') \<and>
        fst (get other_cache s' ''c'') \<noteq> Inr (Some ''3'') \<and>
        contains other_cache s' ''c'' \<noteq> Inr True"
proof -
  have "\<exists>s'. store example_cache full_redis ''c'' ''3'' None = Some (Inr (), s')"
    by (simp add: eval_defs)
  then obtain s' where run: "store example_cache full_redis ''c'' ''3'' None = Some (Inr (), s')" ..
  have ns: "py_format (unique example_cache) \<noteq> py_format (unique other_cache)"
    by (simp add: example_cache_def other_cache_def)
  have before: "fst (get other_cache full_redis ''c'') \<noteq> Inr (Some ''3'')"
    "contains other_cache full_redis ''c'' \<noteq> Inr True"
    by (simp_all add: other_cache_def eval_defs)
  from namespace_isolation[OF ns run, of "''3''"] before run show ?thesis by blast
qed

theorem namespace_isolation_counterexample:
  "unique int_cache \<noteq> unique str_cache \<and>
   fst (get str_cache empty_redis ''k'') = Inl CacheMissException \<and>
   contains str_cache empty_redis ''k'' = Inr False \<and>
   fst (get str_cache (after_store int_cache empty_redis ''k'' ''v'') ''k'') = Inr (Some ''v'') \<and>
   contains str_cache (after_store int_cache empty_redis ''k'' ''v'') ''k'' = Inr True \<and>
   unique outer_cache \<noteq> unique inner_cache \<and>
   contains inner_cache empty_redis ''b-keys'' = Inr False \<and>
   contains inner_cache (after_store outer_cache empty_redis ''b-keys'' ''v'') ''b-keys'' = Inl wrongtype"
  by (simp add: int_cache_def str_cache_def outer_cache_def inner_cache_def after_store_def eval_defs
       str_of_int_def nat_digits.simps digit_char_def)


subsection \<open>Construction and degraded mode\<close>

lemma init_unreachable:
  assumes "truthy namespace \<or> caller_file \<noteq> None"
    and "\<forall>h p. ping env h p = Some ConnectionError"
  shows "\<exists>c. init env caller_file lim ex hk h p d namespace = Inr c \<and> connection c = None"
  using assms
  by (cases namespace; cases caller_file)
     (auto simp: init_def caller_namespace_def connect_def split: option.splits)

lemma degraded_passthrough:
  assumes "connection c = None"
  shows "cache_it P c f a w = Some (Inr (fn_call f a), w\<lparr>calls := calls w + 1\<rparr>)"
    and "cache_it_json J c g b w = Some (Inr (fn_call g b), w\<lparr>calls := calls w + 1\<rparr>)"
  using assms by (simp_all add: cache_it_def cache_it_json_def call_function_def)

text \<open>
  C4.  The constructor catches the connection failure (\<open>init_unreachable\<close>) and the
  wrappers over a cache without connection call the function and touch nothing
  (\<open>degraded_passthrough\<close>).  But without a namespace the constructor looks up
  \<open>__file__\<close> among the local variables of its caller before it tries the connection,
  and raises \<open>KeyError\<close> when the caller is a function body: so does every decorator
  that is given no cache, whatever the server does.
\<close>

theorem init_without_namespace_raises:
  "init env None lim ex hk h p d None = Inl KeyError \<and> decorator env lim ex None = Inl KeyError"
  by (simp add: init_def decorator_def caller_namespace_def)

lemma init_unreachable_example:
  "map_sum id connection (init unreachable None 1000 86400 False None None None (Some (IdStr ''ns''))) = Inr None \<and>
   map_sum id connection (init unreachable (Some ''app.py'') 1000 86400 False None None None None) = Inr None \<and>
   decorator unreachable 1000 86400 None = Inl KeyError"
  by (simp add: init_def decorator_def caller_namespace_def connect_def unreachable_def RedisConnect_init_def)

subsection \<open>Errors at the wrappers\<close>

lemma pickle_read_errors_caught:
  assumes "connection c \<noteq> None" and "pickle_cache_key P c f a = Inr K"
    and "get_pickle P c (backend w) K = (Inl e, s)"
  shows "cache_it P c f a w =
           compute_and_store_pickle P c f a K
             (if e = ExpiredKeyException \<or> e = CacheMissException then w\<lparr>backend := s\<rparr>
              else w\<lparr>backend := s, logged := logged w @ [unknown_error]\<rparr>)"
  using assms by (auto simp: cache_it_def)

lemma json_read_errors_caught:
  assumes "connection c \<noteq> None" and "json_cache_key J c f a = Inr K"
    and "contains c (backend w) K = Inr True"
    and "get_json J c (backend w) K = (Inl e, s)"
  shows "cache_it_json J c f a w =
           compute_and_store_json J c f a K
             (if e = ExpiredKeyException \<or> e = CacheMissException then w\<lparr>backend := s\<rparr>
              else w\<lparr>backend := s, logged := logged w @ [unknown_error]\<rparr>)"
  using assms by (auto simp: cache_it_json_def)

lemma json_precheck_error_propagates:
  assumes "connection c \<noteq> None" and "json_cache_key J c f a = Inr K"
    and "contains c (backend w) K = Inl e"
  shows "cache_it_json J c f a w = Some (Inl e, w)"
  using assms by (auto simp: cache_it_json_def)

lemma store_error_propagates:
  "store_pickle P c (backend w) K (fn_call f a) = Some (Inl e, s) \<Longrightarrow>
     compute_and_store_pickle P c f a K w = Some (Inl e, w\<lparr>calls := calls w + 1, backend := s\<rparr>)"
  "store_json J c (backend w) K (fn_call g b) = Some (Inl e, s) \<Longrightarrow>
     compute_and_store_json J c g b K w = Some (Inl e, w\<lparr>calls := calls w + 1, backend := s\<rparr>)"
  by (simp_all add: compute_and_store_pickle_def compute_and_store_json_def call_function_def)

lemmas wrapper_eval =
  cache_it_def cache_it_json_def compute_and_store_pickle_def compute_and_store_json_def
  call_function_def pickle_cache_key_def json_cache_key_def store_json_def store_pickle_def
  get_json_def get_pickle_def pickle_read_def first_arg_def world0_def clobbered_redis_def
  example_pickle_def

text \<open>
  C7.  An error of the cached read is caught and logged, and the wrapper goes on to
  compute and store (\<open>pickle_read_errors_caught\<close>, \<open>json_read_errors_caught\<close>).  An
  error of the membership test of the JSON wrapper, or of the store step of either
  wrapper, is outside the \<open>try\<close> and reaches the caller: here with a cache whose
  time to live is 0, which \<open>SETEX\<close> refuses, and with a Key-Set name that holds a string.
\<close>

theorem wrapper_propagates_store_errors:
  "map_option fst (cache_it_json py_json (example_cache\<lparr>expire := 0\<rparr>) first_arg (PTuple [PInt 7]) world0)
     = Some (Inl invalid_expire) \<and>
   map_option fst (cache_it example_pickle (example_cache\<lparr>expire := 0\<rparr>) first_arg (PTuple [PInt 7]) world0)
     = Some (Inl invalid_expire) \<and>
   map_option fst (cache_it_json py_json example_cache first_arg (PTuple [PInt 7]) (world0\<lparr>backend := clobbered_redis\<rparr>))
     = Some (Inl wrongtype) \<and>
   map_option (\<lambda>r. (fst r, calls (snd r), logged (snd r)))
       (cache_it example_pickle example_cache first_arg (PTuple [PInt 7]) (world0\<lparr>backend := clobbered_redis\<rparr>))
     = Some (Inl wrongtype, 1, [unknown_error])"
  by (simp add: wrapper_eval eval_defs json_eval py_b64encode_def b64_char_def b64_alphabet_def
       wrongtype_def invalid_expire_def)


subsection \<open>Memoisation\<close>

lemma cache_key_nonempty:
  "pickle_cache_key P c f a = Inr K \<Longrightarrow> K \<noteq> []"
  "json_cache_key J c g b = Inr K' \<Longrightarrow> K' \<noteq> []"
  by (auto simp: pickle_cache_key_def json_cache_key_def split: sum.splits)

lemma get_frame:
  assumes "get c s key = (r, s')"
  shows "now s' = now s \<and> (\<forall>x. x \<noteq> get_set_name c \<longrightarrow> live s' x = live s x)"
  using assms
  by (auto simp: get_def to_unicode_def r_srem_def
           split: if_splits option.splits sum.splits bool.splits prod.splits rdata.splits)

lemma get_absent:
  assumes "key \<noteq> []" and "connection c \<noteq> None" and "live s (make_key c key) = None"
  shows "\<exists>e s'. get c s key = (Inl e, s')"
  using assms
  by (auto simp: get_live r_get_def split: sum.splits bool.splits)

lemma compute_and_store_json_result:
  assumes "compute_and_store_json J c f a K w = Some (r, w')"
  shows "calls w' = calls w + 1 \<and>
         (\<forall>v. r = Inr v \<longrightarrow> v = fn_call f a \<and> store_json J c (backend w) K v = Some (Inr (), backend w'))"
  using assms
  by (auto simp: compute_and_store_json_def call_function_def split: option.splits sum.splits prod.splits)

lemma compute_and_store_pickle_result:
  assumes "compute_and_store_pickle P c f a K w = Some (r, w')"
  shows "calls w' = calls w + 1 \<and>
         (\<forall>v. r = Inr v \<longrightarrow> v = fn_call f a \<and> store_pickle P c (backend w) K v = Some (Inr (), backend w'))"
  using assms
  by (auto simp: compute_and_store_pickle_def call_function_def split: option.splits sum.splits prod.splits)

lemma pickle_miss_path:
  assumes conn: "connection c \<noteq> None" and key: "pickle_cache_key P c f a = Inr K"
    and fresh: "live (backend w) (make_key c K) = None"
  shows "\<exists>wa. cache_it P c f a w = compute_and_store_pickle P c f a K wa \<and> calls wa = calls w \<and>
           (\<forall>x. x \<noteq> get_set_name c \<longrightarrow> live (backend wa) x = live (backend w) x)"
proof -
  from get_absent[OF cache_key_nonempty(1)[OF key] conn fresh]
  obtain e s' where g: "get c (backend w) K = (Inl e, s')" by blast
  then have gp: "get_pickle P c (backend w) K = (Inl e, s')" by (simp add: get_pickle_def)
  note fr = get_frame[OF g]
  let ?wa = "if e = ExpiredKeyException \<or> e = CacheMissException then w\<lparr>backend := s'\<rparr>
              else w\<lparr>backend := s', logged := logged w @ [unknown_error]\<rparr>"
  have "cache_it P c f a w = compute_and_store_pickle P c f a K ?wa"
    using conn key gp by (auto simp: cache_it_def)
  moreover have "calls ?wa = calls w" by simp
  moreover have "\<forall>x. x \<noteq> get_set_name c \<longrightarrow> live (backend ?wa) x = live (backend w) x"
    using fr by simp
  ultimately show ?thesis by blast
qed

lemma json_miss_path:
  assumes conn: "connection c \<noteq> None" and key: "json_cache_key J c f a = Inr K"
    and fresh: "live (backend w) (make_key c K) = None"
    and listed: "contains c (backend w) K = Inr b"
  shows "\<exists>wa. cache_it_json J c f a w = compute_and_store_json J c f a K wa \<and> calls wa = calls w \<and>
           (\<forall>x. x \<noteq> get_set_name c \<longrightarrow> live (backend wa) x = live (backend w) x)"
proof (cases b)
  case False
  with conn key listed have "cache_it_json J c f a w = compute_and_store_json J c f a K w"
    by (auto simp: cache_it_json_def)
  then show ?thesis by blast
next
  case True
  from get_absent[OF cache_key_nonempty(2)[OF key] conn fresh]
  obtain e s' where g: "get c (backend w) K = (Inl e, s')" by blast
  then have gp: "get_json J c (backend w) K = (Inl e, s')" by (simp add: get_json_def)
  note fr = get_frame[OF g]
  let ?wa = "if e = ExpiredKeyException \<or> e = CacheMissException then w\<lparr>backend := s'\<rparr>
              else w\<lparr>backend := s', logged := logged w @ [unknown_error]\<rparr>"
  have "cache_it_json J c f a w = compute_and_store_json J c f a K ?wa"
    using conn key gp listed True by (auto simp: cache_it_json_def)
  moreover have "calls ?wa = calls w" by simp
  moreover have "\<forall>x. x \<noteq> get_set_name c \<longrightarrow> live (backend ?wa) x = live (backend w) x"
    using fr by simp
  ultimately show ?thesis by blast
qed

lemma pickle_hit:
  assumes "connection c \<noteq> None" and "pickle_cache_key P c f a = Inr K"
    and "r_get (backend w) (make_key c K) = Inr (Some t)" and "pickle_read P t = Inr v"
  shows "cache_it P c f a w = Some (Inr v, w)"
  using assms cache_key_nonempty(1)[OF assms(2)]
  by (auto simp: cache_it_def get_pickle_def get_live)

lemma json_hit:
  assumes "connection c \<noteq> None" and "json_cache_key J c f a = Inr K"
    and "r_get (backend w) (make_key c K) = Inr (Some t)" and "contains c (backend w) K = Inr True"
    and "json_loads J t = Inr v"
  shows "cache_it_json J c f a w = Some (Inr v, w)"
  using assms cache_key_nonempty(2)[OF assms(2)]
  by (auto simp: cache_it_json_def get_json_def get_live)

lemma store_keeps_absent:
  assumes "store c s key v ex = Some (r, s')" and "k \<noteq> key" and "live s (make_key c k) = None"
  shows "live s' (make_key c k) = None"
proof -
  from store_frame[OF assms(1)] have
    "live s' (make_key c k) = live s (make_key c k) \<or> live s' (make_key c k) = None \<or>
     (make_key c k = get_set_name c \<and> (\<exists>xs t. live s' (make_key c k) = Some (RSet xs, t))) \<or>
     (make_key c k = make_key c key \<and> (\<exists>t. live s' (make_key c k) = Some (RStr v, t)))"
    by blast
  with assms(2,3) show ?thesis by auto
qed

lemma store_answers_membership:
  assumes "store c s key v ex = Some (Inr (), s')"
  shows "\<exists>b. contains c s' k = Inr b"
proof -
  from assms obtain conn s2 where conn: "connection c = Some conn"
    and b: "r_sadd s2 (get_set_name c) key = Inr s'"
    unfolding store_normal by blast
  from sismember_sadd[OF b, of k] conn show ?thesis by (simp add: contains_def)
qed

lemma pickle_memo:
  assumes conn: "connection c \<noteq> None"
    and key: "pickle_cache_key P c f a = Inr K"
    and fresh: "live (backend w0) (make_key c K) = None"
    and first: "cache_it P c f a w0 = Some (Inr r1, w1)"
  shows "r1 = fn_call f a \<and> calls w1 = calls w0 + 1 \<and>
         (\<exists>t. pickle_dumps P r1 = Inr t \<and>
              (\<forall>v. pickle_read P (b64encode P t) = Inr v \<longrightarrow> cache_it P c f a w1 = Some (Inr v, w1))) \<and>
         (pickle_cache_key P c f a2 = Inr K2 \<and> K2 \<noteq> K \<and> live (backend w0) (make_key c K2) = None \<and>
          cache_it P c f a2 w1 = Some (r2, w2) \<longrightarrow>
            calls w2 = calls w1 + 1 \<and> (\<forall>v. r2 = Inr v \<longrightarrow> v = fn_call f a2))"
proof -
  from pickle_miss_path[OF conn key fresh] obtain wa where
    wa: "cache_it P c f a w0 = compute_and_store_pickle P c f a K wa" and
    ca: "calls wa = calls w0" and
    fa: "\<And>x. x \<noteq> get_set_name c \<Longrightarrow> live (backend wa) x = live (backend w0) x" by blast
  from compute_and_store_pickle_result[of P c f a K wa "Inr r1" w1] wa first
  have r1: "r1 = fn_call f a" and c1: "calls w1 = calls wa + 1"
    and sp: "store_pickle P c (backend wa) K r1 = Some (Inr (), backend w1)" by auto
  from sp obtain t where t: "pickle_dumps P r1 = Inr t"
    and st: "store c (backend wa) K (b64encode P t) None = Some (Inr (), backend w1)"
    by (auto simp: store_pickle_def split: sum.splits)
  from store_then_get_entry[OF st] have
    e1: "r_get (backend w1) (make_key c K) = Inr (Some (b64encode P t))" by simp
  have second: "\<forall>v. pickle_read P (b64encode P t) = Inr v \<longrightarrow> cache_it P c f a w1 = Some (Inr v, w1)"
    using pickle_hit[OF conn key e1] by blast
  have third: "calls w2 = calls w1 + 1 \<and> (\<forall>v. r2 = Inr v \<longrightarrow> v = fn_call f a2)"
    if k2: "pickle_cache_key P c f a2 = Inr K2" and ne: "K2 \<noteq> K"
      and fresh2: "live (backend w0) (make_key c K2) = None"
      and run: "cache_it P c f a2 w1 = Some (r2, w2)"
  proof -
    from fresh2 fa[of "make_key c K2"] have "live (backend wa) (make_key c K2) = None" by simp
    from store_keeps_absent[OF st ne this] have f2: "live (backend w1) (make_key c K2) = None" .
    from pickle_miss_path[OF conn k2 f2] obtain wb where
      "cache_it P c f a2 w1 = compute_and_store_pickle P c f a2 K2 wb" and "calls wb = calls w1" by blast
    with run compute_and_store_pickle_result[of P c f a2 K2 wb r2 w2] show ?thesis by auto
  qed
  from r1 c1 ca t second third show ?thesis by auto
qed

lemma json_memo:
  assumes conn: "connection c \<noteq> None"
    and key: "json_cache_key J c f a = Inr K"
    and fresh: "live (backend w0) (make_key c K) = None"
    and first: "cache_it_json J c f a w0 = Some (Inr r1, w1)"
  shows "r1 = fn_call f a \<and> calls w1 = calls w0 + 1 \<and>
         (\<exists>t. json_dumps J r1 = Inr t \<and>
              (\<forall>v. json_loads J t = Inr v \<longrightarrow> cache_it_json J c f a w1 = Some (Inr v, w1))) \<and>
         (json_cache_key J c f a2 = Inr K2 \<and> K2 \<noteq> K \<and> live (backend w0) (make_key c K2) = None \<and>
          cache_it_json J c f a2 w1 = Some (r2, w2) \<longrightarrow>
            calls w2 = calls w1 + 1 \<and> (\<forall>v. r2 = Inr v \<longrightarrow> v = fn_call f a2))"
proof -
  obtain b where listed: "contains c (backend w0) K = Inr b"
  proof (cases "contains c (backend w0) K")
    case (Inl e)
    with conn key have "cache_it_json J c f a w0 = Some (Inl e, w0)" by (auto simp: cache_it_json_def)
    with first show ?thesis by simp
  next
    case (Inr b)
    then show ?thesis by (rule that)
  qed
  from json_miss_path[OF conn key fresh listed] obtain wa where
    wa: "cache_it_json J c f a w0 = compute_and_store_json J c f a K wa" and
    ca: "calls wa = calls w0" and
    fa: "\<And>x. x \<noteq> get_set_name c \<Longrightarrow> live (backend wa) x = live (backend w0) x" by blast
  from compute_and_store_json_result[of J c f a K wa "Inr r1" w1] wa first
  have r1: "r1 = fn_call f a" and c1: "calls w1 = calls wa + 1"
    and sp: "store_json J c (backend wa) K r1 = Some (Inr (), backend w1)" by auto
  from sp obtain t where t: "json_dumps J r1 = Inr t"
    and st: "store c (backend wa) K t None = Some (Inr (), backend w1)"
    by (auto simp: store_json_def split: sum.splits)
  from store_then_get_entry[OF st] have
    e1: "r_get (backend w1) (make_key c K) = Inr (Some t)" and
    l1: "contains c (backend w1) K = Inr True" by simp_all
  have second: "\<forall>v. json_loads J t = Inr v \<longrightarrow> cache_it_json J c f a w1 = Some (Inr v, w1)"
    using json_hit[OF conn key e1 l1] by blast
  have third: "calls w2 = calls w1 + 1 \<and> (\<forall>v. r2 = Inr v \<longrightarrow> v = fn_call f a2)"
    if k2: "json_cache_key J c f a2 = Inr K2" and ne: "K2 \<noteq> K"
      and fresh2: "live (backend w0) (make_key c K2) = None"
      and run: "cache_it_json J c f a2 w1 = Some (r2, w2)"
  proof -
    from fresh2 fa[of "make_key c K2"] have "live (backend wa) (make_key c K2) = None" by simp
    from store_keeps_absent[OF st ne this] have f2: "live (backend w1) (make_key c K2) = None" .
    from store_answers_membership[OF st] obtain b2 where "contains c (backend w1) K2 = Inr b2" by blast
    from json_miss_path[OF conn k2 f2 this] obtain wb where
      "cache_it_json J c f a2 w1 = compute_and_store_json J c f a2 K2 wb" and "calls wb = calls w1" by blast
    with run compute_and_store_json_result[of J c f a2 K2 wb r2 w2] show ?thesis by auto
  qed
  from r1 c1 ca t second third show ?thesis by auto
qed

text \<open>
  C5, with what the libraries contribute made explicit.  With a live connection, when
  no entry exists yet under the cache key of the arguments and the first call returns
  normally: the first call has computed the function once and stored the result; a
  second call with the same arguments returns what the library reads back from the
  stored text, without calling the function and without changing anything (the result
  is equal to the first one when the library reads back what it wrote); and a call
  with arguments whose cache key is different and has no entry calls the function
  again.  Both wrappers.
\<close>

theorem memoisation:
  assumes "connection c \<noteq> None"
  shows "(pickle_cache_key P c f a = Inr K \<and> live (backend w0) (make_key c K) = None \<and>
          cache_it P c f a w0 = Some (Inr r1, w1) \<longrightarrow>
            r1 = fn_call f a \<and> calls w1 = calls w0 + 1 \<and>
            (\<exists>t. pickle_dumps P r1 = Inr t \<and>
                 (\<forall>v. pickle_read P (b64encode P t) = Inr v \<longrightarrow> cache_it P c f a w1 = Some (Inr v, w1))) \<and>
            (pickle_cache_key P c f a2 = Inr K2 \<and> K2 \<noteq> K \<and> live (backend w0) (make_key c K2) = None \<and>
             cache_it P c f a2 w1 = Some (r2, w2) \<longrightarrow>
               calls w2 = calls w1 + 1 \<and> (\<forall>v. r2 = Inr v \<longrightarrow> v = fn_call f a2))) \<and>
         (json_cache_key J c g b = Inr L \<and> live (backend u0) (make_key c L) = None \<and>
          cache_it_json J c g b u0 = Some (Inr q1, u1) \<longrightarrow>
            q1 = fn_call g b \<and> calls u1 = calls u0 + 1 \<and>
            (\<exists>t. json_dumps J q1 = Inr t \<and>
                 (\<forall>v. json_loads J t = Inr v \<longrightarrow> cache_it_json J c g b u1 = Some (Inr v, u1))) \<and>
            (json_cache_key J c g b2 = Inr L2 \<and> L2 \<noteq> L \<and> live (backend u0) (make_key c L2) = None \<and>
             cache_it_json J c g b2 u1 = Some (q2, u2) \<longrightarrow>
               calls u2 = calls u1 + 1 \<and> (\<forall>v. q2 = Inr v \<longrightarrow> v = fn_call g b2)))"
proof (rule conjI; rule impI)
  assume "pickle_cache_key P c f a = Inr K \<and> live (backend w0) (make_key c K) = None \<and>
          cache_it P c f a w0 = Some (Inr r1, w1)"
  then have "pickle_cache_key P c f a = Inr K" "live (backend w0) (make_key c K) = None"
    "cache_it P c f a w0 = Some (Inr r1, w1)" by simp_all
  then show "r1 = fn_call f a \<and> calls w1 = calls w0 + 1 \<and>
            (\<exists>t. pickle_dumps P r1 = Inr t \<and>
                 (\<forall>v. pickle_read P (b64encode P t) = Inr v \<longrightarrow> cache_it P c f a w1 = Some (Inr v, w1))) \<and>
            (pickle_cache_key P c f a2 = Inr K2 \<and> K2 \<noteq> K \<and> live (backend w0) (make_key c K2) = None \<and>
             cache_it P c f a2 w1 = Some (r2, w2) \<longrightarrow>
               calls w2 = calls w1 + 1 \<and> (\<forall>v. r2 = Inr v \<longrightarrow> v = fn_call f a2))"
    by (rule pickle_memo[OF assms])
next
  assume "json_cache_key J c g b = Inr L \<and> live (backend u0) (make_key c L) = None \<and>
          cache_it_json J c g b u0 = Some (Inr q1, u1)"
  then have "json_cache_key J c g b = Inr L" "live (backend u0) (make_key c L) = None"
    "cache_it_json J c g b u0 = Some (Inr q1, u1)" by simp_all
  then show "q1 = fn_call g b \<and> calls u1 = calls u0 + 1 \<and>
            (\<exists>t. json_dumps J q1 = Inr t \<and>
                 (\<forall>v. json_loads J t = Inr v \<longrightarrow> cache_it_json J c g b u1 = Some (Inr v, u1))) \<and>
            (json_cache_key J c g b2 = Inr L2 \<and> L2 \<noteq> L \<and> live (backend u0) (make_key c L2) = None \<and>
             cache_it_json J c g b2 u1 = Some (q2, u2) \<longrightarrow>
               calls u2 = calls u1 + 1 \<and> (\<forall>v. q2 = Inr v \<longrightarrow> v = fn_call g b2))"
    by (rule json_memo[OF assms])
qed

theorem memoisation_counterexample:
  "tuple_args \<noteq> list_args \<and>
   map_option fst (cache_it_json py_json example_cache first_arg tuple_args world0)
     = Some (Inr (PTuple [PInt 1, PInt 2])) \<and>
   calls json_world1 = 1 \<and>
   map_option (\<lambda>r. (fst r, calls (snd r))) (cache_it_json py_json example_cache first_arg tuple_args json_world1)
     = Some (Inr (PList [PInt 1, PInt 2]), 1) \<and>
   map_option (\<lambda>r. (fst r, calls (snd r))) (cache_it_json py_json example_cache first_arg list_args json_world1)
     = Some (Inr (PList [PInt 1, PInt 2]), 1)"
  by (simp add: json_world1_def tuple_args_def list_args_def wrapper_eval eval_defs json_eval)


theorem memoisation_witness:
  "cache_it example_pickle example_cache first_arg list_args world0
     = Some (Inr (PList [PInt 1, PInt 2]), pickle_world1) \<and>
   calls pickle_world1 = 1 \<and>
   cache_it example_pickle example_cache first_arg list_args pickle_world1
     = Some (Inr (PList [PInt 1, PInt 2]), pickle_world1) \<and>
   (\<exists>w2. cache_it example_pickle example_cache first_arg (PTuple [PInt 7]) pickle_world1
            = Some (Inr (PInt 7), w2) \<and> calls w2 = 2) \<and>
   cache_it_json py_json example_cache first_arg list_args world0
     = Some (Inr (PList [PInt 1, PInt 2]), json_world2) \<and>
   calls json_world2 = 1 \<and>
   cache_it_json py_json example_cache first_arg list_args json_world2
     = Some (Inr (PList [PInt 1, PInt 2]), json_world2) \<and>
   (\<exists>u2. cache_it_json py_json example_cache first_arg (PTuple [PInt 7]) json_world2
            = Some (Inr (PInt 7), u2) \<and> calls u2 = 2)"
proof -
  have conn: "connection example_cache \<noteq> None" by (simp add: example_cache_def)
  have pk: "pickle_cache_key example_pickle example_cache first_arg list_args = Inr ''first:[[1, 2]]''"
    and pk2: "pickle_cache_key example_pickle example_cache first_arg (PTuple [PInt 7]) = Inr ''first:[7]''"
    and jk: "json_cache_key py_json example_cache first_arg list_args = Inr ''first:[[1, 2]]''"
    and jk2: "json_cache_key py_json example_cache first_arg (PTuple [PInt 7]) = Inr ''first:[7]''"
    by (simp_all add: list_args_def wrapper_eval eval_defs json_eval)
  have fresh: "live (backend world0) (make_key example_cache ''first:[[1, 2]]'') = None"
    and fresh2: "live (backend world0) (make_key example_cache ''first:[7]'') = None"
    by (simp_all add: world0_def eval_defs)
  have dumps: "pickle_dumps example_pickle (PList [PInt 1, PInt 2]) = Inr ''[1, 2]''"
    "json_dumps py_json (PList [PInt 1, PInt 2]) = Inr ''[1, 2]''"
    by (simp_all add: example_pickle_def json_eval)
  have b64: "py_b64decode (py_b64encode ''[1, 2]'') = Inr ''[1, 2]''"
    by code_simp
  have loads: "py_json_loads ''[1, 2]'' = Inr (PList [PInt 1, PInt 2])"
    by (simp add: json_eval Let_def)
  have rd: "pickle_read example_pickle (b64encode example_pickle ''[1, 2]'') = Inr (PList [PInt 1, PInt 2])"
    "json_loads py_json ''[1, 2]'' = Inr (PList [PInt 1, PInt 2])"
    by (simp_all add: pickle_read_def example_pickle_def py_json_def b64 loads)
  have p1: "cache_it example_pickle example_cache first_arg list_args world0
              = Some (Inr (PList [PInt 1, PInt 2]), pickle_world1)"
    by (simp add: pickle_world1_def list_args_def wrapper_eval eval_defs json_eval
          py_b64encode_def b64_char_def b64_alphabet_def)
  have j1: "cache_it_json py_json example_cache first_arg list_args world0
              = Some (Inr (PList [PInt 1, PInt 2]), json_world2)"
    by (simp add: json_world2_def list_args_def wrapper_eval eval_defs json_eval)
  have "\<exists>r2 w2. cache_it example_pickle example_cache first_arg (PTuple [PInt 7]) pickle_world1 = Some (Inr r2, w2)"
    by (simp add: pickle_world1_def list_args_def wrapper_eval eval_defs json_eval
          py_b64encode_def b64_char_def b64_alphabet_def)
  then obtain r2 w2 where p3:
    "cache_it example_pickle example_cache first_arg (PTuple [PInt 7]) pickle_world1 = Some (Inr r2, w2)" by blast
  have "\<exists>q2 u2. cache_it_json py_json example_cache first_arg (PTuple [PInt 7]) json_world2 = Some (Inr q2, u2)"
    by (simp add: json_world2_def list_args_def wrapper_eval eval_defs json_eval)
  then obtain q2 u2 where j3:
    "cache_it_json py_json example_cache first_arg (PTuple [PInt 7]) json_world2 = Some (Inr q2, u2)" by blast
  note m = memoisation[OF conn, of example_pickle first_arg list_args "''first:[[1, 2]]''" world0
      "PList [PInt 1, PInt 2]" pickle_world1 "PTuple [PInt 7]" "''first:[7]''" "Inr r2" w2
      py_json first_arg list_args "''first:[[1, 2]]''" world0
      "PList [PInt 1, PInt 2]" json_world2 "PTuple [PInt 7]" "''first:[7]''" "Inr q2" u2]
  note mpk = m[THEN conjunct1, THEN mp, OF conjI[OF pk conjI[OF fresh p1]]]
  note mj = m[THEN conjunct2, THEN mp, OF conjI[OF jk conjI[OF fresh j1]]]
  note pa = mpk[THEN conjunct2, THEN conjunct1]
  note pb = mpk[THEN conjunct2, THEN conjunct2, THEN conjunct1]
  note pc = mpk[THEN conjunct2, THEN conjunct2, THEN conjunct2, THEN mp,
               OF conjI[OF pk2 conjI[OF _ conjI[OF fresh2 p3]]]]
  note ja = mj[THEN conjunct2, THEN conjunct1]
  note jb = mj[THEN conjunct2, THEN conjunct2, THEN conjunct1]
  note jc = mj[THEN conjunct2, THEN conjunct2, THEN conjunct2, THEN mp,
               OF conjI[OF jk2 conjI[OF _ conjI[OF fresh2 j3]]]]
  have ne: "''first:[7]'' \<noteq> ''first:[[1, 2]]''" by simp
  from pb dumps rd have p2: "cache_it example_pickle example_cache first_arg list_args pickle_world1
       = Some (Inr (PList [PInt 1, PInt 2]), pickle_world1)" by auto
  from jb dumps rd have j2: "cache_it_json py_json example_cache first_arg list_args json_world2
       = Some (Inr (PList [PInt 1, PInt 2]), json_world2)" by auto
  have c0: "calls world0 = 0" by (simp add: world0_def)
  have f7: "fn_call first_arg (PTuple [PInt 7]) = PInt 7" by (simp add: first_arg_def)
  from pc[OF ne] p3 f7 pa c0 have p4: "\<exists>w2. cache_it example_pickle example_cache first_arg (PTuple [PInt 7]) pickle_world1
            = Some (Inr (PInt 7), w2) \<and> calls w2 = 2" by simp
  from jc[OF ne] j3 f7 ja c0 have j4: "\<exists>u2. cache_it_json py_json example_cache first_arg (PTuple [PInt 7]) json_world2
            = Some (Inr (PInt 7), u2) \<and> calls u2 = 2" by simp
  from pa ja c0 have "calls pickle_world1 = 1" "calls json_world2 = 1" by simp_all
  with p1 p2 p4 j1 j2 j4 show ?thesis by blast
qed


subsection \<open>Expiry\<close>

text \<open>
  The cache never gives its Key Set a time to live.  When the Key Set has none, an
  entry stored with a time to live is gone once that time has passed, while its key is
  still listed: \<open>get\<close> then raises \<open>ExpiredKeyException\<close> and unlists the key.
\<close>

lemma spop_deadline:
  assumes "r_spop s name = Inr (dk, s1)" and "live s1 name = Some (d, t)"
  shows "\<exists>d0. live s name = Some (d0, t)"
proof (cases "live s name")
  case None
  with assms show ?thesis by (simp add: r_spop_def)
next
  case (Some p)
  obtain d0 t0 where p: "p = (d0, t0)" by (cases p)
  show ?thesis
  proof (cases d0)
    case (RStr v)
    with Some p assms show ?thesis by (simp add: r_spop_def)
  next
    case (RSet xs)
    show ?thesis
    proof (cases "remdups xs")
      case Nil
      with Some p RSet assms show ?thesis by (simp add: r_spop_def)
    next
      case (Cons y ys)
      define m where "m = (y # ys) ! (next_rand s mod length (y # ys))"
      from Some p RSet Cons assms have s1: "s1 = (put_set s name (removeAll m xs) t0)\<lparr>rand := tl (rand s)\<rparr>"
        by (simp add: r_spop_def m_def Let_def)
      have l: "live s name = Some (RSet xs, t0)" using Some p RSet by simp
      have "live s1 name = (if removeAll m xs = [] then None else Some (RSet (removeAll m xs), t0))"
        unfolding s1 using live_put_set_same[OF l] by simp
      with assms(2) l show ?thesis by (auto split: if_splits)
    qed
  qed
qed

lemma store_loop_deadline:
  assumes "store_loop c s = Some (r, s')"
    and "\<forall>d t. live s (get_set_name c) = Some (d, t) \<longrightarrow> t = None"
  shows "\<forall>d t. live s' (get_set_name c) = Some (d, t) \<longrightarrow> t = None"
proof -
  let ?I = "\<lambda>s1. \<forall>d t. live s1 (get_set_name c) = Some (d, t) \<longrightarrow> t = None"
  have "?I s' \<and> (\<forall>u. r = Inr u \<longrightarrow> (\<exists>n. r_scard s' (get_set_name c) = Inr n \<and> int n < limit c))"
  proof (rule store_loop_rule[OF assms(1), of ?I])
    show "?I s" by (rule assms(2))
  next
    fix s0 n dk s1
    assume I: "?I s0" and pop: "r_spop s0 (get_set_name c) = Inr (dk, s1)"
    show "?I (r_delete s1 (make_key c (format_opt dk)))"
      using spop_deadline[OF pop] I by auto
  qed
  then show ?thesis by blast
qed

lemma get_after_ttl:
  assumes run: "store c s key v (Some ttl) = Some (Inr (), s1)"
    and key: "key \<noteq> []"
    and set: "\<forall>d t. live s (get_set_name c) = Some (d, t) \<longrightarrow> t = None"
    and late: "nat ttl \<le> n"
  shows "fst (get c (elapse n s1) key) = Inl ExpiredKeyException \<and>
         contains c (snd (get c (elapse n s1) key)) key = Inr False"
proof -
  from run obtain conn sa sb where conn: "connection c = Some conn"
    and loop: "store_loop c s = Some (Inr (), sa)"
    and a: "r_setex sa (make_key c key) ttl v = Inr sb"
    and b: "r_sadd sb (get_set_name c) key = Inr s1"
    unfolding store_normal by auto
  have ka: "keyspace s1 (make_key c key) = Some (RStr v, Some (now sa + nat ttl))"
    using a b by (auto simp: r_setex_def r_sadd_def split: if_splits option.splits rdata.splits prod.splits)
  have n1: "now s1 = now sa" using now_setex[OF a] now_sadd[OF b] by simp
  have entry: "live (elapse n s1) (make_key c key) = None"
    using ka n1 late by (simp add: live_def elapse_def)
  from store_loop_deadline[OF loop set]
  have da: "\<forall>d t. live sa (get_set_name c) = Some (d, t) \<longrightarrow> t = None" .
  have "live sb (get_set_name c) = live sa (get_set_name c)"
    by (rule live_setex_other[OF a]) simp
  with da have db: "\<forall>d t. live sb (get_set_name c) = Some (d, t) \<longrightarrow> t = None" by simp
  from b db obtain xs where k1: "keyspace s1 (get_set_name c) = Some (RSet xs, None)" and m: "key \<in> set xs"
    by (auto simp: r_sadd_def split: option.splits rdata.splits prod.splits)
  then have "live (elapse n s1) (get_set_name c) = Some (RSet xs, None)"
    by (simp add: live_def elapse_def)
  with m have listed: "r_sismember (elapse n s1) (get_set_name c) key = Inr True"
    by (simp add: r_sismember_def r_smembers_def)
  from srem_listed[OF listed] obtain s2 where
    "r_srem (elapse n s1) (get_set_name c) key = Inr s2" "r_sismember s2 (get_set_name c) key = Inr False"
    by blast
  with entry listed key conn show ?thesis
    by (simp add: get_live r_get_def contains_def)
qed

lemma get_after_ttl_example:
  "fst (get example_cache (elapse 5 (after_store example_cache empty_redis ''k'' ''v'')) ''k'') = Inr (Some ''v'') \<and>
   fst (get example_cache (elapse 60 (after_store example_cache empty_redis ''k'' ''v'')) ''k'') = Inl ExpiredKeyException"
  by (simp add: after_store_def elapse_def eval_defs)


end
